theory Spec2Isabelle
  imports Main "HOL-Library.AList"
begin

section \<open>Strings\<close>

text \<open>Python's \<open>str.endswith\<close> and \<open>str.startswith\<close> with one literal argument.\<close>

definition endswith :: "string \<Rightarrow> string \<Rightarrow> bool" where
  "endswith s suffix =
     (length suffix \<le> length s \<and> drop (length s - length suffix) s = suffix)"

definition startswith :: "string \<Rightarrow> string \<Rightarrow> bool" where
  "startswith s prefix = (take (length prefix) s = prefix)"

text \<open>
  \<open>s.replace(old, '')\<close>: every non-overlapping occurrence of \<open>old\<close> is dropped, scanning
  from the left. The source only calls it with a non-empty literal (\<open>'.gz'\<close>, \<open>'hours'\<close>).
\<close>

function replace_del :: "string \<Rightarrow> string \<Rightarrow> string" where
  "replace_del old [] = []"
| "replace_del old (c # cs) =
     (if old \<noteq> [] \<and> take (length old) (c # cs) = old
      then replace_del old (drop (length old) (c # cs))
      else c # replace_del old cs)"
  by pat_completeness auto
termination
  by (relation "measure (\<lambda>(old, s). length s)") (auto simp: neq_Nil_conv)

text \<open>\<open>os.path.join(a, b)\<close> on POSIX, for two components.\<close>

definition os_path_join :: "string \<Rightarrow> string \<Rightarrow> string" where
  "os_path_join a b =
     (if startswith b ''/'' then b
      else if a = [] \<or> endswith a ''/'' then a @ b
      else a @ ''/'' @ b)"

section \<open>The file system the backup code works on\<close>

text \<open>
  What the standard library's \<open>gzip\<close> reader can get out of a file: nothing (no gzip
  header), some bytes and then a premature end of the compressed data (the end-of-stream
  marker and trailer are missing), or a whole member of the given payload length.
\<close>

datatype gz_stream = Not_gzip | Truncated nat | Complete nat

text \<open>
  \<open>gzip.open(path, 'rb').read(1)\<close> raises on a bad header and when the compressed data ends
  before a single byte or the end-of-stream marker was produced; once one byte has been
  decompressed it returns without looking at the rest of the stream.
\<close>

fun gzip_read1 :: "gz_stream \<Rightarrow> bool" where
  "gzip_read1 Not_gzip = False"
| "gzip_read1 (Truncated n) = (0 < n)"
| "gzip_read1 (Complete n) = True"

text \<open>Reading the stream to its end (\<open>shutil.copyfileobj\<close> from a gzip reader).\<close>

fun gzip_read_all :: "gz_stream \<Rightarrow> nat option" where
  "gzip_read_all (Complete n) = Some n"
| "gzip_read_all _ = None"

text \<open>The end-of-stream marker of the container can be read back.\<close>

fun end_of_stream_readable :: "gz_stream \<Rightarrow> bool" where
  "end_of_stream_readable (Complete n) = True"
| "end_of_stream_readable _ = False"

text \<open>
  A file as the code observes it: \<open>st_size\<close> and \<open>st_ctime\<close> of \<open>os.stat\<close> (the time in
  seconds), what a gzip reader finds in it, and whether \<open>os.remove\<close> succeeds on it.
\<close>

record file_attr =
  st_size :: nat
  st_ctime :: int
  gz :: gz_stream
  removable :: bool

text \<open>
  The file system is an association list from paths to files, in the order \<open>os.listdir\<close>
  reports the entries.
\<close>

type_synonym fs = "(string \<times> file_attr) list"

definition os_path_exists :: "fs \<Rightarrow> string \<Rightarrow> bool" where
  "os_path_exists fs p = (map_of fs p \<noteq> None)"

text \<open>\<open>os.remove(p)\<close>: \<open>None\<close> when it raises (no such file, or the file cannot be removed).\<close>

definition os_remove :: "fs \<Rightarrow> string \<Rightarrow> fs option" where
  "os_remove fs p =
     (case map_of fs p of
        None \<Rightarrow> None
      | Some f \<Rightarrow> if removable f then Some (AList.delete p fs) else None)"

text \<open>Opening \<open>p\<close> for writing and closing it with content \<open>f\<close>: created, or overwritten.\<close>

definition write_file :: "fs \<Rightarrow> string \<Rightarrow> file_attr \<Rightarrow> fs" where
  "write_file fs p f = AList.update p f fs"

section \<open>BackupManager.verify_backup\<close>

definition verify_backup :: "fs \<Rightarrow> string \<Rightarrow> bool" where
  "verify_backup fs backup_file =
     (if \<not> os_path_exists fs backup_file then False
      else case map_of fs backup_file of
        None \<Rightarrow> False
      | Some f \<Rightarrow>
          if st_size f = 0 then False
          else if endswith backup_file ''.gz'' \<and> \<not> gzip_read1 (gz f) then False
          else True)"

section \<open>BackupManager.list_backups and cleanup_old_backups\<close>

text \<open>
  \<open>os.listdir(d)\<close>: the names of the entries directly under \<open>d\<close>. Paths are compared as
  strings, and the empty path has no listing (\<open>os.listdir('')\<close> raises, which
  \<open>list_backups\<close> catches and answers with the empty list).
\<close>

definition dir_prefix :: "string \<Rightarrow> string" where
  "dir_prefix d = (if endswith d ''/'' then d else d @ ''/'')"

definition in_dir :: "string \<Rightarrow> string \<Rightarrow> bool" where
  "in_dir d p =
     (d \<noteq> [] \<and> startswith p (dir_prefix d) \<and> drop (length (dir_prefix d)) p \<noteq> [] \<and>
      CHR ''/'' \<notin> set (drop (length (dir_prefix d)) p))"

definition os_listdir :: "fs \<Rightarrow> string \<Rightarrow> string list" where
  "os_listdir fs d = map (\<lambda>p. drop (length (dir_prefix d)) p) (filter (in_dir d) (map fst fs))"

text \<open>\<open>os.path.basename\<close>: what follows the last slash.\<close>

definition os_path_basename :: "string \<Rightarrow> string" where
  "os_path_basename p = rev (takeWhile (\<lambda>c. c \<noteq> CHR ''/'') (rev p))"

text \<open>
  The dictionary built by \<open>get_backup_info\<close>, with the entries the retention code reads;
  \<open>None\<close> is the empty dictionary returned when \<open>os.stat\<close> raises.
\<close>

record backup_info =
  filename :: string
  path :: string
  info_size :: nat
  created :: int

definition get_backup_info :: "fs \<Rightarrow> string \<Rightarrow> backup_info option" where
  "get_backup_info fs backup_file =
     (case map_of fs backup_file of
        None \<Rightarrow> None
      | Some f \<Rightarrow>
          Some \<lparr>filename = os_path_basename backup_file, path = backup_file,
                info_size = st_size f, created = st_ctime f\<rparr>)"

text \<open>
  The configuration of a \<open>BackupManager\<close>. \<open>max_backups\<close> and \<open>retention_days\<close> come
  from the JSON configuration unchecked, so they are integers of either sign.
\<close>

record backup_config =
  local_path :: string
  compression :: bool
  retention_days :: int
  max_backups :: int

text \<open>
  The filter of the listing loop: the name ends in \<open>.sql\<close> or \<open>.sql.gz\<close> and, when a
  non-empty database name is given, starts with it.
\<close>

definition is_backup_name :: "string option \<Rightarrow> string \<Rightarrow> bool" where
  "is_backup_name database name =
     ((endswith name ''.sql'' \<or> endswith name ''.sql.gz'') \<and>
      (case database of
         None \<Rightarrow> True
       | Some d \<Rightarrow> \<not> (d \<noteq> [] \<and> \<not> startswith name d)))"

text \<open>
  \<open>backups.sort(key=lambda x: x['created'], reverse=True)\<close>: Python's sort is stable, also
  with \<open>reverse=True\<close>, which is the stable ascending sort on the negated key.
\<close>

definition list_backups :: "backup_config \<Rightarrow> fs \<Rightarrow> string option \<Rightarrow> backup_info list" where
  "list_backups cfg fs database =
     sort_key (\<lambda>b. - created b)
       (List.map_filter (\<lambda>name. get_backup_info fs (os_path_join (local_path cfg) name))
          (filter (is_backup_name database) (os_listdir fs (local_path cfg))))"

text \<open>What the cleanup does, in order: calls of \<open>os.remove\<close> and log lines.\<close>

datatype cleanup_event =
    Os_remove string
  | Log_removed_old string
  | Log_removed_excess string
  | Log_cleanup_completed nat
  | Log_error_during_cleanup

text \<open>
  The state of a cleanup in progress: the file system, \<open>removed_count\<close> and the events
  so far. A loop that ends in \<open>Inl\<close> was left by an exception of \<open>os.remove\<close>.
\<close>

type_synonym cleanup_state = "fs \<times> nat \<times> cleanup_event list"

fun remove_old :: "int \<Rightarrow> backup_info list \<Rightarrow> cleanup_state \<Rightarrow> cleanup_state + cleanup_state" where
  "remove_old cutoff_date [] st = Inr st"
| "remove_old cutoff_date (backup # rest) (fs, removed_count, evs) =
     (if created backup < cutoff_date then
        (case os_remove fs (path backup) of
           None \<Rightarrow> Inl (fs, removed_count, evs @ [Os_remove (path backup)])
         | Some fs' \<Rightarrow>
             remove_old cutoff_date rest
               (fs', removed_count + 1,
                evs @ [Os_remove (path backup), Log_removed_old (filename backup)]))
      else remove_old cutoff_date rest (fs, removed_count, evs))"

fun remove_excess :: "backup_info list \<Rightarrow> cleanup_state \<Rightarrow> cleanup_state + cleanup_state" where
  "remove_excess [] st = Inr st"
| "remove_excess (backup # rest) (fs, removed_count, evs) =
     (if os_path_exists fs (path backup) then
        (case os_remove fs (path backup) of
           None \<Rightarrow> Inl (fs, removed_count, evs @ [Os_remove (path backup)])
         | Some fs' \<Rightarrow>
             remove_excess rest
               (fs', removed_count + 1,
                evs @ [Os_remove (path backup), Log_removed_excess (filename backup)]))
      else remove_excess rest (fs, removed_count, evs))"

text \<open>\<open>xs[i:]\<close> for an integer \<open>i\<close> of either sign.\<close>

definition slice_from :: "'a list \<Rightarrow> int \<Rightarrow> 'a list" where
  "slice_from xs i = (if 0 \<le> i then drop (nat i) xs else drop (nat (int (length xs) + i)) xs)"

definition seconds_per_day :: int where
  "seconds_per_day = 86400"

text \<open>
  Dates, in seconds since the epoch. \<open>timedelta(days=d)\<close> raises \<open>OverflowError\<close> when \<open>d\<close>
  is beyond 999999999 days either way, and a \<open>datetime\<close> minus a \<open>timedelta\<close> raises it when
  the result is not a date of the years 1 to 9999. \<open>None\<close> is the exception.
\<close>

definition timedelta_days :: "int \<Rightarrow> int option" where
  "timedelta_days d =
     (if - 999999999 \<le> d \<and> d \<le> 999999999 then Some (d * seconds_per_day) else None)"

definition datetime_min :: int where
  "datetime_min = - 62135596800"

definition datetime_max :: int where
  "datetime_max = 253402300799"

definition datetime_minus :: "int \<Rightarrow> int \<Rightarrow> int option" where
  "datetime_minus t delta =
     (if datetime_min \<le> t - delta \<and> t - delta \<le> datetime_max then Some (t - delta) else None)"

text \<open>\<open>datetime.now() - timedelta(days=self.retention_days)\<close> at time \<open>t\<close>.\<close>

definition now_minus_days :: "int \<Rightarrow> int \<Rightarrow> int option" where
  "now_minus_days t d =
     (case timedelta_days d of None \<Rightarrow> None | Some delta \<Rightarrow> datetime_minus t delta)"

text \<open>
  \<open>cleanup_old_backups\<close> at time \<open>now\<close>: the number it returns, the file system it leaves
  and what it did. The whole body is one \<open>try\<close>; the handler logs and falls through to the
  \<open>return\<close>, whether the exception came from the date arithmetic or from \<open>os.remove\<close>.
\<close>

definition cleanup_old_backups ::
  "backup_config \<Rightarrow> int \<Rightarrow> fs \<Rightarrow> string option \<Rightarrow> nat \<times> fs \<times> cleanup_event list" where
  "cleanup_old_backups cfg now fs database =
     (let backups = list_backups cfg fs database
      in case now_minus_days now (retention_days cfg) of
           None \<Rightarrow> (0, fs, [Log_error_during_cleanup])
         | Some cutoff_date \<Rightarrow>
             (case remove_old cutoff_date backups (fs, 0, []) of
                Inl (fs1, n1, evs1) \<Rightarrow> (n1, fs1, evs1 @ [Log_error_during_cleanup])
              | Inr (fs1, n1, evs1) \<Rightarrow>
                  (case (if int (length backups) > max_backups cfg
                         then remove_excess (slice_from backups (max_backups cfg)) (fs1, n1, evs1)
                         else Inr (fs1, n1, evs1)) of
                     Inl (fs2, n2, evs2) \<Rightarrow> (n2, fs2, evs2 @ [Log_error_during_cleanup])
                   | Inr (fs2, n2, evs2) \<Rightarrow>
                       (n2, fs2, if n2 > 0 then evs2 @ [Log_cleanup_completed n2] else evs2))))"

section \<open>The running system and its collaborators\<close>

text \<open>
  The state the pipeline runs in: the files and the clock (\<open>time.time()\<close> and
  \<open>datetime.now()\<close>, in seconds). The database client, the gzip writer and the network
  transports are collaborators: each call returns its answer and the state it leaves, in
  which files may have appeared and time has passed. Each of them catches its own
  exceptions in the source and answers \<open>False\<close> or \<open>None\<close> instead.
\<close>

record sys =
  files :: fs
  now :: int

record collaborators =
  test_connection :: "sys \<Rightarrow> bool \<times> sys"
  create_backup :: "string \<Rightarrow> string \<Rightarrow> sys \<Rightarrow> bool \<times> sys"
  compress_file :: "string \<Rightarrow> sys \<Rightarrow> string option \<times> sys"
  upload_ftp :: "string \<Rightarrow> sys \<Rightarrow> bool \<times> sys"
  upload_sftp :: "string \<Rightarrow> sys \<Rightarrow> bool \<times> sys"
  google_drive_upload :: "string \<Rightarrow> sys \<Rightarrow> bool option \<times> sys"
  strftime :: "int \<Rightarrow> string"
  mysql_restore :: "string \<Rightarrow> string \<Rightarrow> bool"

text \<open>
  \<open>google_drive_upload\<close> answers \<open>None\<close> when the call raises, which the orchestrator
  catches; \<open>strftime\<close> formats a time as \<open>%Y%m%d_%H%M%S\<close>; \<open>mysql_restore\<close> is the outcome
  of connecting, creating the database and feeding a file to the \<open>mysql\<close> client.
\<close>

section \<open>StorageHandler.upload_backup\<close>

record storage_config =
  local_enabled :: bool
  ftp_enabled :: bool
  sftp_enabled :: bool

text \<open>What a run does, in order: the calls that leave the orchestrator.\<close>

record success_details =
  duration :: int
  storage_results :: "(string \<times> bool) list"
  size_bytes :: nat
  removed_old :: nat

datatype notification =
    Backup_successful string string success_details
  | Backup_failed string string int

datatype event =
    Test_connection
  | Create_backup string string
  | Compress_file string
  | Verify_backup string
  | Handle_local_storage string
  | Upload_ftp string
  | Upload_sftp string
  | Google_drive_upload string
  | Cleanup_old_backups string
  | Send_backup_notification notification

text \<open>
  A Python dictionary with string keys is an association list in insertion order;
  \<open>d[k] = v\<close> is \<open>AList.update k v d\<close>.
\<close>

type_synonym upload_state = "(string \<times> bool) list \<times> sys \<times> event list"

definition upload_local_step :: "storage_config \<Rightarrow> string \<Rightarrow> upload_state \<Rightarrow> upload_state" where
  "upload_local_step cfg local_file st =
     (case st of (results, s, evs) \<Rightarrow>
        if local_enabled cfg
        then (AList.update ''local'' True results, s, evs @ [Handle_local_storage local_file])
        else st)"

definition upload_ftp_step ::
  "storage_config \<Rightarrow> collaborators \<Rightarrow> string \<Rightarrow> upload_state \<Rightarrow> upload_state" where
  "upload_ftp_step cfg c local_file st =
     (case st of (results, s, evs) \<Rightarrow>
        if ftp_enabled cfg
        then (case upload_ftp c local_file s of
                (ok, s') \<Rightarrow> (AList.update ''ftp'' ok results, s', evs @ [Upload_ftp local_file]))
        else st)"

definition upload_sftp_step ::
  "storage_config \<Rightarrow> collaborators \<Rightarrow> string \<Rightarrow> upload_state \<Rightarrow> upload_state" where
  "upload_sftp_step cfg c local_file st =
     (case st of (results, s, evs) \<Rightarrow>
        if sftp_enabled cfg
        then (case upload_sftp c local_file s of
                (ok, s') \<Rightarrow> (AList.update ''sftp'' ok results, s', evs @ [Upload_sftp local_file]))
        else st)"

definition upload_backup ::
  "storage_config \<Rightarrow> collaborators \<Rightarrow> string \<Rightarrow> sys \<Rightarrow> upload_state" where
  "upload_backup cfg c local_file s =
     (if \<not> os_path_exists (files s) local_file then ([(''error'', False)], s, [])
      else upload_sftp_step cfg c local_file
             (upload_ftp_step cfg c local_file
                (upload_local_step cfg local_file ([], s, []))))"

section \<open>BackupOrchestrator: one database\<close>

definition generate_backup_filename ::
  "backup_config \<Rightarrow> string \<Rightarrow> string \<Rightarrow> string \<Rightarrow> string" where
  "generate_backup_filename cfg timestamp database backup_type =
     (let filename = database @ ''_'' @ backup_type @ ''_'' @ timestamp @ ''.sql''
      in if compression cfg then filename @ ''.gz'' else filename)"

record orchestrator_config =
  backup :: backup_config
  storage :: storage_config
  google_drive_enabled :: bool
  databases :: "string list"

text \<open>
  The Google Drive step: taken when the handler exists and is enabled; an exception of the
  upload is caught and recorded as \<open>False\<close>.
\<close>

definition google_drive_step ::
  "orchestrator_config \<Rightarrow> collaborators \<Rightarrow> string \<Rightarrow> upload_state \<Rightarrow> upload_state" where
  "google_drive_step cfg c backup_path st =
     (case st of (results, s, evs) \<Rightarrow>
        if google_drive_enabled cfg
        then (case google_drive_upload c backup_path s of
                (Some gdrive_success, s') \<Rightarrow>
                  (AList.update ''google_drive'' gdrive_success results, s',
                   evs @ [Google_drive_upload backup_path])
              | (None, s') \<Rightarrow>
                  (AList.update ''google_drive'' False results, s',
                   evs @ [Google_drive_upload backup_path]))
        else st)"

text \<open>
  The rest of the \<open>try\<close> block once verification has passed: upload, cleanup, duration,
  notification. Nothing in it raises: the uploads and the cleanup answer with values, and
  \<open>send_backup_notification\<close> hands the message to transports that catch their own errors.
\<close>

definition finish_backup ::
  "orchestrator_config \<Rightarrow> collaborators \<Rightarrow> string \<Rightarrow> int \<Rightarrow> string \<Rightarrow> sys \<Rightarrow> event list
     \<Rightarrow> sys \<times> event list" where
  "finish_backup cfg c database start_time backup_path s evs =
     (case google_drive_step cfg c backup_path (upload_backup (storage cfg) c backup_path s) of
        (results, s1, upload_evs) \<Rightarrow>
          (case cleanup_old_backups (backup cfg) (now s1) (files s1) (Some database) of
             (removed_count, fs2, cleanup_evs) \<Rightarrow>
               let s2 = s1\<lparr>files := fs2\<rparr>;
                   details = \<lparr>duration = now s2 - start_time,
                              storage_results = results,
                              size_bytes = (case get_backup_info (files s2) backup_path of
                                              None \<Rightarrow> 0 | Some info \<Rightarrow> info_size info),
                              removed_old = removed_count\<rparr>
               in (s2, evs @ upload_evs @ [Cleanup_old_backups database,
                     Send_backup_notification (Backup_successful database backup_path details)])))"

text \<open>
  The compression step: \<open>compress_file\<close> answers with the path of the compressed file;
  \<open>None\<close> (or an empty path, which is just as false) raises.
\<close>

definition compress_step ::
  "collaborators \<Rightarrow> string \<Rightarrow> sys \<Rightarrow> event list
     \<Rightarrow> (string \<times> sys \<times> event list) + (string \<times> sys \<times> event list)" where
  "compress_step c temp_sql_file s evs =
     (case compress_file c temp_sql_file s of
        (Some compressed_file, s') \<Rightarrow>
          if compressed_file \<noteq> []
          then Inr (compressed_file, s', evs @ [Compress_file temp_sql_file])
          else Inl (''Compression failed'', s', evs @ [Compress_file temp_sql_file])
      | (None, s') \<Rightarrow> Inl (''Compression failed'', s', evs @ [Compress_file temp_sql_file]))"

text \<open>
  The \<open>try\<close> block up to the verification. \<open>Inl\<close> carries the text of the raised exception
  with the state and the events at that point; \<open>Inr\<close> carries the path of the verified
  backup file.
\<close>

definition prepare_backup ::
  "orchestrator_config \<Rightarrow> collaborators \<Rightarrow> string \<Rightarrow> sys
     \<Rightarrow> (string \<times> sys \<times> event list) + (string \<times> sys \<times> event list)" where
  "prepare_backup cfg c database s0 =
     (case test_connection c s0 of (connected, s1) \<Rightarrow>
      if \<not> connected then Inl (''Database connection failed'', s1, [Test_connection])
      else
        let backup_filename =
              generate_backup_filename (backup cfg) (strftime c (now s1)) database ''full'';
            backup_path = os_path_join (local_path (backup cfg)) backup_filename;
            temp_sql_file = (if endswith backup_path ''.gz''
                             then replace_del ''.gz'' backup_path else backup_path);
            evs2 = [Test_connection, Create_backup database temp_sql_file]
        in (case create_backup c database temp_sql_file s1 of (dumped, s2) \<Rightarrow>
           if \<not> dumped then Inl (''Failed to create database dump'', s2, evs2)
           else
             (case (if compression (backup cfg)
                    then compress_step c temp_sql_file s2 evs2
                    else Inr (backup_path, s2, evs2)) of
                Inl failure \<Rightarrow> Inl failure
              | Inr (backup_path', s3, evs3) \<Rightarrow>
                  if \<not> verify_backup (files s3) backup_path'
                  then Inl (''Backup verification failed'', s3,
                            evs3 @ [Verify_backup backup_path'])
                  else Inr (backup_path', s3, evs3 @ [Verify_backup backup_path']))))"

text \<open>The whole \<open>try\<close> block: \<open>Inl\<close> for an exception, \<open>Inr\<close> for the normal end.\<close>

definition try_backup ::
  "orchestrator_config \<Rightarrow> collaborators \<Rightarrow> string \<Rightarrow> int \<Rightarrow> sys
     \<Rightarrow> (string \<times> sys \<times> event list) + (sys \<times> event list)" where
  "try_backup cfg c database start_time s0 =
     (case prepare_backup cfg c database s0 of
        Inl failure \<Rightarrow> Inl failure
      | Inr (backup_path, s3, evs3) \<Rightarrow>
          Inr (finish_backup cfg c database start_time backup_path s3 evs3))"

text \<open>
  The path of the new backup and the path of the dump file, as the run computes them in
  the state \<open>s\<close> that the connection test has left.
\<close>

definition new_backup_path :: "orchestrator_config \<Rightarrow> collaborators \<Rightarrow> string \<Rightarrow> sys \<Rightarrow> string" where
  "new_backup_path cfg c database s =
     os_path_join (local_path (backup cfg))
       (generate_backup_filename (backup cfg) (strftime c (now s)) database ''full'')"

definition temp_sql_file :: "orchestrator_config \<Rightarrow> collaborators \<Rightarrow> string \<Rightarrow> sys \<Rightarrow> string" where
  "temp_sql_file cfg c database s =
     (if endswith (new_backup_path cfg c database s) ''.gz''
      then replace_del ''.gz'' (new_backup_path cfg c database s)
      else new_backup_path cfg c database s)"

text \<open>
  \<open>_backup_single_database\<close>: the \<open>try\<close> block, and the handler that computes the duration,
  sends the failure notification and returns \<open>False\<close>.
\<close>

definition backup_single_database ::
  "orchestrator_config \<Rightarrow> collaborators \<Rightarrow> string \<Rightarrow> sys \<Rightarrow> bool \<times> sys \<times> event list" where
  "backup_single_database cfg c database s0 =
     (let start_time = now s0
      in case try_backup cfg c database start_time s0 of
           Inr (s, evs) \<Rightarrow> (True, s, evs)
         | Inl (error_message, s, evs) \<Rightarrow>
             (False, s,
              evs @ [Send_backup_notification
                       (Backup_failed database error_message (now s - start_time))]))"

text \<open>The database and the outcome a notification reports.\<close>

fun notified :: "event \<Rightarrow> (string \<times> bool) option" where
  "notified (Send_backup_notification (Backup_successful db backup_file details)) = Some (db, True)"
| "notified (Send_backup_notification (Backup_failed db error_message d)) = Some (db, False)"
| "notified _ = None"

section \<open>BackupOrchestrator.run_backup\<close>

record db_result =
  result_status :: string
  result_success :: bool
  result_database :: string

type_synonym batch_state = "(string \<times> db_result) list \<times> sys \<times> event list"

fun backup_loop ::
  "orchestrator_config \<Rightarrow> collaborators \<Rightarrow> string list \<Rightarrow> batch_state \<Rightarrow> batch_state" where
  "backup_loop cfg c [] st = st"
| "backup_loop cfg c (db # rest) (results, s, evs) =
     (case backup_single_database cfg c db s of
        (ok, s', evs') \<Rightarrow>
          backup_loop cfg c rest
            (AList.update db
               \<lparr>result_status = (if ok then ''success'' else ''error''), result_success = ok,
                result_database = db\<rparr>
               results,
             s', evs @ evs'))"

definition run_backup ::
  "orchestrator_config \<Rightarrow> collaborators \<Rightarrow> string list option \<Rightarrow> sys \<Rightarrow> batch_state" where
  "run_backup cfg c requested s =
     (let dbs = (case requested of None \<Rightarrow> databases cfg | Some l \<Rightarrow> l)
      in if dbs = [] then ([], s, []) else backup_loop cfg c dbs ([], s, []))"

section \<open>BackupOrchestrator.restore_database\<close>

text \<open>A file this process has just written: \<open>n\<close> bytes, created now, no gzip container.\<close>

definition new_file :: "int \<Rightarrow> nat \<Rightarrow> file_attr" where
  "new_file t n = \<lparr>st_size = n, st_ctime = t, gz = Not_gzip, removable = True\<rparr>"

text \<open>The bytes a gzip reader yields before it raises.\<close>

fun gzip_partial :: "gz_stream \<Rightarrow> nat" where
  "gzip_partial (Truncated n) = n"
| "gzip_partial _ = 0"

text \<open>
  \<open>decompress_file\<close> with the default output name. Opening a missing input or the empty
  output name raises; otherwise the output is created and keeps what was copied before
  the reader raised. An input without \<open>.gz\<close> in its name is its own output: it is
  truncated on opening and read back as an empty stream.
\<close>

definition decompress_file :: "string \<Rightarrow> sys \<Rightarrow> string option \<times> sys" where
  "decompress_file input_file s =
     (let output_file = replace_del ''.gz'' input_file
      in case map_of (files s) input_file of
           None \<Rightarrow> (None, s)
         | Some f \<Rightarrow>
             if output_file = [] then (None, s)
             else if output_file = input_file
             then (Some output_file,
                   s\<lparr>files := write_file (files s) output_file
                                 (f\<lparr>st_size := 0, st_ctime := now s, gz := Not_gzip\<rparr>)\<rparr>)
             else (case gzip_read_all (gz f) of
                     None \<Rightarrow>
                       (None,
                        s\<lparr>files := write_file (files s) output_file
                                      (new_file (now s) (gzip_partial (gz f)))\<rparr>)
                   | Some n \<Rightarrow>
                       (Some output_file,
                        s\<lparr>files := write_file (files s) output_file (new_file (now s) n)\<rparr>)))"

text \<open>\<open>DatabaseConnector.restore_backup\<close>: the file must exist; the rest is the client's.\<close>

definition restore_backup :: "collaborators \<Rightarrow> string \<Rightarrow> string \<Rightarrow> sys \<Rightarrow> bool" where
  "restore_backup c database input_file s =
     (if \<not> os_path_exists (files s) input_file then False
      else mysql_restore c database input_file)"

text \<open>
  \<open>restore_database\<close>: every \<open>raise\<close> of the \<open>try\<close> block, and an exception of the final
  \<open>os.remove\<close>, ends in the handler, which returns \<open>False\<close> and removes nothing.
\<close>

definition restore_database ::
  "collaborators \<Rightarrow> string \<Rightarrow> string \<Rightarrow> sys \<Rightarrow> bool \<times> sys" where
  "restore_database c database backup_file s =
     (if \<not> os_path_exists (files s) backup_file then (False, s)
      else
        case (if endswith backup_file ''.gz''
              then (case decompress_file backup_file s of
                      (Some decompressed_file, s1) \<Rightarrow>
                        if decompressed_file \<noteq> [] then Inr (decompressed_file, s1) else Inl s1
                    | (None, s1) \<Rightarrow> Inl s1)
              else Inr (backup_file, s)) of
          Inl s1 \<Rightarrow> (False, s1)
        | Inr (restore_file, s1) \<Rightarrow>
            if \<not> restore_backup c database restore_file s1 then (False, s1)
            else if restore_file \<noteq> backup_file \<and> os_path_exists (files s1) restore_file
            then (case os_remove (files s1) restore_file of
                    None \<Rightarrow> (False, s1)
                  | Some fs' \<Rightarrow> (True, s1\<lparr>files := fs'\<rparr>))
            else (True, s1))"

section \<open>BackupScheduler\<close>






















section \<open>Example data\<close>

text \<open>
  A backup directory \<open>b\<close> with four backups of database \<open>d\<close> and one of \<open>e\<close>, thirty days of
  retention and room for two backups; collaborators whose database steps succeed and
  whose remote uploads all fail.
\<close>

definition example_file :: "int \<Rightarrow> file_attr" where
  "example_file t = \<lparr>st_size = 10, st_ctime = t, gz = Complete 5, removable = True\<rparr>"

definition example_config :: backup_config where
  "example_config =
     \<lparr>local_path = ''b'', compression = True, retention_days = 30, max_backups = 2\<rparr>"

definition example_fs :: fs where
  "example_fs =
     [(''b/d_1.sql'', example_file 0),
      (''b/d_2.sql'', example_file 4000000),
      (''b/d_3.sql'', example_file 4000001),
      (''b/d_4.sql'', example_file 4000002),
      (''b/e.sql'', example_file 4000003)]"

definition example_sys :: sys where
  "example_sys = \<lparr>files = example_fs, now = 4000005\<rparr>"

definition example_collaborators :: collaborators where
  "example_collaborators =
     \<lparr>test_connection = (\<lambda>s. (True, s\<lparr>now := now s + 1\<rparr>)),
      create_backup = (\<lambda>db out s.
        (True, s\<lparr>files := write_file (files s) out (new_file (now s) 100), now := now s + 5\<rparr>)),
      compress_file = (\<lambda>inp s.
        (Some (inp @ ''.gz''),
         s\<lparr>files := write_file (AList.delete inp (files s)) (inp @ ''.gz'')
                       \<lparr>st_size = 40, st_ctime = now s, gz = Complete 100, removable = True\<rparr>,
           now := now s + 2\<rparr>)),
      upload_ftp = (\<lambda>p s. (False, s\<lparr>now := now s + 3\<rparr>)),
      upload_sftp = (\<lambda>p s. (False, s\<lparr>now := now s + 3\<rparr>)),
      google_drive_upload = (\<lambda>p s. (None, s)),
      strftime = (\<lambda>t. ''5''),
      mysql_restore = (\<lambda>db p. False)\<rparr>"

definition example_orchestrator_config :: orchestrator_config where
  "example_orchestrator_config =
     \<lparr>backup = example_config,
      storage = \<lparr>local_enabled = True, ftp_enabled = True, sftp_enabled = True\<rparr>,
      google_drive_enabled = True,
      databases = [''d'', ''e'']\<rparr>"




section \<open>Association lists as file systems\<close>

lemma map_of_write_file: "map_of (write_file fs p f) = (map_of fs)(p \<mapsto> f)"
  by (simp add: write_file_def update_conv')

lemma delete_as_filter: "AList.delete k fs = filter (\<lambda>e. fst e \<notin> {k}) fs"
  by (simp add: AList.delete_eq split_def) (metis)

lemma map_of_filter_keys:
  "map_of (filter (\<lambda>e. fst e \<notin> R) fs) p = (if p \<in> R then None else map_of fs p)"
  by (induction fs) auto

lemma filter_keys_twice:
  "filter (\<lambda>e. fst e \<notin> A) (filter (\<lambda>e. fst e \<notin> B) fs) = filter (\<lambda>e. fst e \<notin> B \<union> A) fs"
  by (induction fs) auto

section \<open>The listing\<close>

lemma join_drop_prefix:
  assumes "in_dir d p"
  shows "os_path_join d (drop (length (dir_prefix d)) p) = p"
proof -
  let ?name = "drop (length (dir_prefix d)) p"
  from assms have d: "d \<noteq> []" and p: "p = dir_prefix d @ ?name"
    and ne: "?name \<noteq> []" and ns: "CHR ''/'' \<notin> set ?name"
    by (auto simp: in_dir_def startswith_def) (metis append_take_drop_id)
  from ne ns have "\<not> startswith ?name ''/''"
    by (cases ?name) (auto simp: startswith_def)
  with d p show ?thesis
    by (auto simp: os_path_join_def dir_prefix_def)
qed

lemma get_backup_info_path: "get_backup_info fs p = Some b \<Longrightarrow> path b = p"
  by (auto simp: get_backup_info_def split: option.splits)

lemma list_backups_keys:
  "list_backups cfg fs db =
     sort_key (\<lambda>b. - created b)
       (List.map_filter (get_backup_info fs)
          (filter (\<lambda>p. in_dir (local_path cfg) p \<and>
                        is_backup_name db (drop (length (dir_prefix (local_path cfg))) p))
             (map fst fs)))"
proof -
  let ?d = "local_path cfg"
  let ?n = "length (dir_prefix ?d)"
  have "List.map_filter (\<lambda>name. get_backup_info fs (os_path_join ?d name))
          (filter (is_backup_name db) (map (drop ?n) ks)) =
        List.map_filter (get_backup_info fs)
          (filter (\<lambda>p. is_backup_name db (drop ?n p)) ks)"
    if "\<forall>p \<in> set ks. in_dir ?d p" for ks
    using that by (induction ks) (auto simp: join_drop_prefix split: option.splits)
  from this [of "filter (in_dir ?d) (map fst fs)"]
  show ?thesis
    by (simp add: list_backups_def os_listdir_def conj_commute)
qed

lemma list_backups_info:
  assumes "b \<in> set (list_backups cfg fs db)"
  shows "get_backup_info fs (path b) = Some b"
proof -
  from assms obtain p where "get_backup_info fs p = Some b"
    by (auto simp: list_backups_keys List.map_filter_def)
  moreover from this have "path b = p" by (rule get_backup_info_path)
  ultimately show ?thesis by simp
qed

lemma list_backups_distinct:
  assumes "distinct (map fst fs)"
  shows "distinct (map path (list_backups cfg fs db))"
proof -
  let ?ks = "filter (\<lambda>p. in_dir (local_path cfg) p \<and>
                        is_backup_name db (drop (length (dir_prefix (local_path cfg))) p))
             (map fst fs)"
  have eq: "map path (List.map_filter (get_backup_info fs) ks) =
        filter (\<lambda>p. get_backup_info fs p \<noteq> None) ks" for ks
    by (induction ks) (auto simp: get_backup_info_path split: option.splits)
  have "distinct ?ks" using assms by simp
  then have "distinct (filter (\<lambda>p. get_backup_info fs p \<noteq> None) ?ks)"
    by (rule distinct_filter)
  then have "distinct (map path (List.map_filter (get_backup_info fs) ?ks))"
    by (simp only: eq)
  then show ?thesis
    unfolding list_backups_keys by (simp add: distinct_map)
qed




section \<open>The two eviction loops when no removal fails\<close>



section \<open>Which backups survive\<close>





section \<open>One database: the stages\<close>

lemma compress_step_Inl:
  "compress_step c tmp s evs = Inl (msg, s', evs') \<Longrightarrow>
   msg = ''Compression failed'' \<and> evs' = evs @ [Compress_file tmp]"
  by (auto simp: compress_step_def split: prod.splits option.splits if_splits)

lemma compress_step_Inr:
  "compress_step c tmp s evs = Inr (p, s', evs') \<Longrightarrow> evs' = evs @ [Compress_file tmp]"
  by (auto simp: compress_step_def split: prod.splits option.splits if_splits)

text \<open>The outcome of the stages before the upload, stage by stage.\<close>

lemma prepare_backup_stages:
  assumes "prepare_backup cfg c db s0 = r"
  shows "(\<exists>s. r = Inl (''Database connection failed'', s, [Test_connection])) \<or>
         (\<exists>s tmp. r = Inl (''Failed to create database dump'', s,
                      [Test_connection, Create_backup db tmp])) \<or>
         (\<exists>s tmp. compression (backup cfg) \<and>
            r = Inl (''Compression failed'', s,
                      [Test_connection, Create_backup db tmp, Compress_file tmp])) \<or>
         (\<exists>s tmp p. \<not> verify_backup (files s) p \<and>
            r = Inl (''Backup verification failed'', s,
                      [Test_connection, Create_backup db tmp] @
                      (if compression (backup cfg) then [Compress_file tmp] else []) @
                      [Verify_backup p])) \<or>
         (\<exists>s tmp p. verify_backup (files s) p \<and>
            r = Inr (p, s,
                      [Test_connection, Create_backup db tmp] @
                      (if compression (backup cfg) then [Compress_file tmp] else []) @
                      [Verify_backup p]))"
proof -
  obtain connected s1 where tc: "test_connection c s0 = (connected, s1)"
    by (cases "test_connection c s0")
  define bp where "bp = os_path_join (local_path (backup cfg))
      (generate_backup_filename (backup cfg) (strftime c (now s1)) db ''full'')"
  define tmp where "tmp = (if endswith bp ''.gz'' then replace_del ''.gz'' bp else bp)"
  obtain dumped s2 where cb: "create_backup c db tmp s1 = (dumped, s2)"
    by (cases "create_backup c db tmp s1")
  define evs2 where "evs2 = [Test_connection, Create_backup db tmp]"
  define comp where "comp = (if compression (backup cfg)
                    then compress_step c tmp s2 evs2 else Inr (bp, s2, evs2))"
  have r: "r = (if \<not> connected then Inl (''Database connection failed'', s1, [Test_connection])
           else if \<not> dumped then Inl (''Failed to create database dump'', s2, evs2)
           else (case comp of
                Inl failure \<Rightarrow> Inl failure
              | Inr (backup_path', s3, evs3) \<Rightarrow>
                  if \<not> verify_backup (files s3) backup_path'
                  then Inl (''Backup verification failed'', s3,
                            evs3 @ [Verify_backup backup_path'])
                  else Inr (backup_path', s3, evs3 @ [Verify_backup backup_path'])))"
    unfolding assms [symmetric] prepare_backup_def Let_def comp_def evs2_def tmp_def bp_def
    by (simp add: tc cb [unfolded tmp_def bp_def])
  show ?thesis
  proof (cases "connected \<and> dumped")
    case False
    with r show ?thesis by (auto simp: evs2_def)
  next
    case True
    show ?thesis
    proof (cases comp)
      case (Inl failure)
      obtain msg s' evs' where f: "failure = (msg, s', evs')" by (cases failure)
      from Inl f have "compression (backup cfg)" and "compress_step c tmp s2 evs2 = Inl (msg, s', evs')"
        by (auto simp: comp_def split: if_splits)
      with compress_step_Inl [of c tmp s2 evs2 msg s' evs']
      have "compression (backup cfg)" "msg = ''Compression failed''"
        "evs' = [Test_connection, Create_backup db tmp, Compress_file tmp]"
        by (simp_all add: evs2_def)
      with r True Inl f show ?thesis by simp
    next
      case (Inr ok)
      obtain p s3 evs3 where ok: "ok = (p, s3, evs3)" by (cases ok)
      have evs3: "evs3 = [Test_connection, Create_backup db tmp] @
                      (if compression (backup cfg) then [Compress_file tmp] else [])"
        using Inr ok compress_step_Inr [of c tmp s2 evs2 p s3 evs3]
        by (auto simp: comp_def evs2_def split: if_splits)
      from r True Inr ok
      have "r = (if \<not> verify_backup (files s3) p
                  then Inl (''Backup verification failed'', s3, evs3 @ [Verify_backup p])
                  else Inr (p, s3, evs3 @ [Verify_backup p]))"
        by simp
      then have v: "r = (if \<not> verify_backup (files s3) p
                  then Inl (''Backup verification failed'', s3,
                      [Test_connection, Create_backup db tmp] @
                      (if compression (backup cfg) then [Compress_file tmp] else []) @
                      [Verify_backup p])
                  else Inr (p, s3,
                      [Test_connection, Create_backup db tmp] @
                      (if compression (backup cfg) then [Compress_file tmp] else []) @
                      [Verify_backup p]))"
        unfolding evs3 by (simp only: append_assoc)
      show ?thesis
      proof (cases "verify_backup (files s3) p")
        case True
        with v have "\<exists>s tmp p. verify_backup (files s) p \<and>
            r = Inr (p, s,
                      [Test_connection, Create_backup db tmp] @
                      (if compression (backup cfg) then [Compress_file tmp] else []) @
                      [Verify_backup p])"
          by (intro exI [of _ s3] exI [of _ tmp] exI [of _ p]) simp
        then show ?thesis by (intro disjI2)
      next
        case False
        with v have "\<exists>s tmp p. \<not> verify_backup (files s) p \<and>
            r = Inl (''Backup verification failed'', s,
                      [Test_connection, Create_backup db tmp] @
                      (if compression (backup cfg) then [Compress_file tmp] else []) @
                      [Verify_backup p])"
          by (intro exI [of _ s3] exI [of _ tmp] exI [of _ p]) simp
        then show ?thesis by (intro disjI2 disjI1)
      qed
    qed
  qed
qed

section \<open>One database: upload and the end of the run\<close>

text \<open>
  The states the uploads see: each remote target starts where the one before it stopped,
  whatever that one answered.
\<close>

lemma upload_backup_existing:
  assumes "os_path_exists (files s) p"
  shows "upload_backup cfg c p s =
     ((if local_enabled cfg then [(''local'', True)] else []) @
      (if ftp_enabled cfg then [(''ftp'', fst (upload_ftp c p s))] else []) @
      (if sftp_enabled cfg
       then [(''sftp'', fst (upload_sftp c p (if ftp_enabled cfg then snd (upload_ftp c p s) else s)))]
       else []),
      (if sftp_enabled cfg
       then snd (upload_sftp c p (if ftp_enabled cfg then snd (upload_ftp c p s) else s))
       else if ftp_enabled cfg then snd (upload_ftp c p s) else s),
      (if local_enabled cfg then [Handle_local_storage p] else []) @
      (if ftp_enabled cfg then [Upload_ftp p] else []) @
      (if sftp_enabled cfg then [Upload_sftp p] else []))"
  using assms
  by (simp add: upload_backup_def upload_local_step_def upload_ftp_step_def
        upload_sftp_step_def split: prod.splits)


lemma update_new_key: "k \<notin> fst ` set al \<Longrightarrow> AList.update k v al = al @ [(k, v)]"
  by (induction al) auto

lemma google_drive_step_new:
  assumes "''google_drive'' \<notin> fst ` set results"
  shows "google_drive_step cfg c p (results, s, evs) =
     (results @ (if google_drive_enabled cfg
                 then [(''google_drive'',
                        (case fst (google_drive_upload c p s) of None \<Rightarrow> False | Some b \<Rightarrow> b))]
                 else []),
      (if google_drive_enabled cfg then snd (google_drive_upload c p s) else s),
      evs @ (if google_drive_enabled cfg then [Google_drive_upload p] else []))"
  using assms
  by (simp add: google_drive_step_def update_new_key split: prod.splits option.splits)

text \<open>
  All targets of a run on an existing file: the outcomes recorded, the state afterwards and
  the calls made. The calls depend on the configuration alone, not on any outcome.
\<close>

lemma all_uploads:
  assumes "os_path_exists (files s) p"
    and "upload_ftp c p s = (ftp_ok, s4)"
    and "upload_sftp c p (if ftp_enabled (storage cfg) then s4 else s) = (sftp_ok, s5)"
    and "google_drive_upload c p
           (if sftp_enabled (storage cfg) then s5
            else if ftp_enabled (storage cfg) then s4 else s) = (gdrive_ok, s6)"
  shows "google_drive_step cfg c p (upload_backup (storage cfg) c p s) =
     ((if local_enabled (storage cfg) then [(''local'', True)] else []) @
      (if ftp_enabled (storage cfg) then [(''ftp'', ftp_ok)] else []) @
      (if sftp_enabled (storage cfg) then [(''sftp'', sftp_ok)] else []) @
      (if google_drive_enabled cfg
       then [(''google_drive'', (case gdrive_ok of None \<Rightarrow> False | Some b \<Rightarrow> b))] else []),
      (if google_drive_enabled cfg then s6
       else if sftp_enabled (storage cfg) then s5
       else if ftp_enabled (storage cfg) then s4 else s),
      (if local_enabled (storage cfg) then [Handle_local_storage p] else []) @
      (if ftp_enabled (storage cfg) then [Upload_ftp p] else []) @
      (if sftp_enabled (storage cfg) then [Upload_sftp p] else []) @
      (if google_drive_enabled cfg then [Google_drive_upload p] else []))"
proof -
  let ?r = "(if local_enabled (storage cfg) then [(''local'', True)] else []) @
      (if ftp_enabled (storage cfg) then [(''ftp'', fst (upload_ftp c p s))] else []) @
      (if sftp_enabled (storage cfg)
       then [(''sftp'', fst (upload_sftp c p
               (if ftp_enabled (storage cfg) then snd (upload_ftp c p s) else s)))]
       else [])"
  have "''google_drive'' \<notin> fst ` set ?r" by auto
  from google_drive_step_new [OF this, of cfg c p]
  show ?thesis
    unfolding upload_backup_existing [OF assms(1)]
    using assms(2-4) by (simp only: append_assoc) (simp split: if_splits)
qed

lemma prepare_backup_verified:
  assumes "prepare_backup cfg c db s0 = Inr (p, s, evs)"
  shows "verify_backup (files s) p"
  using prepare_backup_stages [OF assms] by auto

lemma verified_exists: "verify_backup fs p \<Longrightarrow> os_path_exists fs p"
  by (simp add: verify_backup_def split: if_splits)


section \<open>The notification of a run\<close>

lemma map_filter_append:
  "List.map_filter f (xs @ ys) = List.map_filter f xs @ List.map_filter f ys"
  by (simp add: List.map_filter_def)

lemma single_run_notified:
  assumes "backup_single_database cfg c db s0 = (ok, s, evs)"
  shows "List.map_filter notified evs = [(db, ok)]"
proof (cases "prepare_backup cfg c db s0")
  case (Inl failure)
  obtain msg s' evs' where f: "failure = (msg, s', evs')" by (cases failure)
  from prepare_backup_stages [OF Inl [unfolded f]]
  have "List.map_filter notified evs' = []"
    by (elim disjE exE conjE) (simp_all split: if_splits)
  moreover from assms Inl f
  have "ok = False" "evs = evs' @ [Send_backup_notification (Backup_failed db msg (now s' - now s0))]"
    by (auto simp add: backup_single_database_def try_backup_def)
  ultimately show ?thesis by (simp add: map_filter_append)
next
  case (Inr passed)
  obtain p s3 evs3 where pr: "prepare_backup cfg c db s0 = Inr (p, s3, evs3)"
    using Inr by (cases passed) auto
  from prepare_backup_stages [OF pr]
  have none: "List.map_filter notified evs3 = []" and ex: "os_path_exists (files s3) p"
    by (auto simp: verified_exists)
  obtain ftp_ok s4 where h2: "upload_ftp c p s3 = (ftp_ok, s4)"
    by (cases "upload_ftp c p s3")
  obtain sftp_ok s5 where
    h3: "upload_sftp c p (if ftp_enabled (storage cfg) then s4 else s3) = (sftp_ok, s5)"
    by (cases "upload_sftp c p (if ftp_enabled (storage cfg) then s4 else s3)")
  obtain gdrive_ok s6 where
    h4: "google_drive_upload c p
           (if sftp_enabled (storage cfg) then s5
            else if ftp_enabled (storage cfg) then s4 else s3) = (gdrive_ok, s6)"
    by (cases "google_drive_upload c p
           (if sftp_enabled (storage cfg) then s5
            else if ftp_enabled (storage cfg) then s4 else s3)")
  let ?s1 = "if google_drive_enabled cfg then s6
       else if sftp_enabled (storage cfg) then s5
       else if ftp_enabled (storage cfg) then s4 else s3"
  obtain removed_count fs2 cleanup_evs where
    cl: "cleanup_old_backups (backup cfg) (now ?s1) (files ?s1) (Some db) =
           (removed_count, fs2, cleanup_evs)"
    by (cases "cleanup_old_backups (backup cfg) (now ?s1) (files ?s1) (Some db)")
  have "try_backup cfg c db (now s0) s0 =
          Inr (finish_backup cfg c db (now s0) p s3 evs3)"
    by (simp add: try_backup_def pr)
  with assms have "ok = True" and
    "\<exists>details. evs = evs3 @
        ((if local_enabled (storage cfg) then [Handle_local_storage p] else []) @
        (if ftp_enabled (storage cfg) then [Upload_ftp p] else []) @
        (if sftp_enabled (storage cfg) then [Upload_sftp p] else []) @
        (if google_drive_enabled cfg then [Google_drive_upload p] else [])) @
        [Cleanup_old_backups db,
         Send_backup_notification (Backup_successful db p details)]"
    by (auto simp add: backup_single_database_def finish_backup_def Let_def
          all_uploads [OF ex h2 h3 h4] cl)
  with none show ?thesis
    by (auto simp: map_filter_append)
qed


section \<open>The batch\<close>

lemma backup_loop_outcomes:
  assumes "backup_loop cfg c dbs (results, s, evs) = (results', s', evs')"
  shows "\<exists>new. evs' = evs @ new \<and>
           map fst (List.map_filter notified new) = dbs \<and>
           fst ` set results' = fst ` set results \<union> set dbs \<and>
           (distinct (map fst results) \<longrightarrow> distinct (map fst results')) \<and>
           (\<forall>db\<in>set dbs. \<exists>ok.
              map_of results' db =
                Some \<lparr>result_status = (if ok then ''success'' else ''error''),
                      result_success = ok, result_database = db\<rparr> \<and>
              (db, ok) \<in> set (List.map_filter notified new)) \<and>
           (\<forall>db. db \<notin> set dbs \<longrightarrow> map_of results' db = map_of results db)"
  using assms
proof (induction dbs arbitrary: results s evs)
  case Nil
  then show ?case by simp
next
  case (Cons d rest)
  obtain ok s1 e1 where run: "backup_single_database cfg c d s = (ok, s1, e1)"
    by (cases "backup_single_database cfg c d s")
  let ?r = "\<lparr>result_status = (if ok then ''success'' else ''error''),
             result_success = ok, result_database = d\<rparr>"
  let ?results1 = "AList.update d ?r results"
  from Cons.prems run
  have "backup_loop cfg c rest (?results1, s1, evs @ e1) = (results', s', evs')"
    by simp
  from Cons.IH [OF this] obtain new where
    new: "evs' = (evs @ e1) @ new"
    and order: "map fst (List.map_filter notified new) = rest"
    and keys: "fst ` set results' = fst ` set ?results1 \<union> set rest"
    and dist: "distinct (map fst ?results1) \<longrightarrow> distinct (map fst results')"
    and vals: "\<forall>db\<in>set rest. \<exists>ok.
              map_of results' db =
                Some \<lparr>result_status = (if ok then ''success'' else ''error''),
                      result_success = ok, result_database = db\<rparr> \<and>
              (db, ok) \<in> set (List.map_filter notified new)"
    and others: "\<forall>db. db \<notin> set rest \<longrightarrow> map_of results' db = map_of ?results1 db"
    by blast
  have one: "List.map_filter notified e1 = [(d, ok)]"
    using run by (rule single_run_notified)
  have c1: "evs' = evs @ (e1 @ new)" using new by simp
  have c2: "map fst (List.map_filter notified (e1 @ new)) = d # rest"
    using one order by (simp add: map_filter_append)
  have c3: "fst ` set results' = fst ` set results \<union> set (d # rest)"
    using keys by (auto simp: dom_update)
  have c4: "distinct (map fst results) \<longrightarrow> distinct (map fst results')"
    using dist by (simp add: distinct_update)
  have c5: "\<forall>db\<in>set (d # rest). \<exists>ok.
              map_of results' db =
                Some \<lparr>result_status = (if ok then ''success'' else ''error''),
                      result_success = ok, result_database = db\<rparr> \<and>
              (db, ok) \<in> set (List.map_filter notified (e1 @ new))"
  proof
    fix db assume "db \<in> set (d # rest)"
    show "\<exists>ok. map_of results' db =
                Some \<lparr>result_status = (if ok then ''success'' else ''error''),
                      result_success = ok, result_database = db\<rparr> \<and>
              (db, ok) \<in> set (List.map_filter notified (e1 @ new))"
    proof (cases "db \<in> set rest")
      case True
      with vals obtain ok' where
        "map_of results' db =
                Some \<lparr>result_status = (if ok' then ''success'' else ''error''),
                      result_success = ok', result_database = db\<rparr>"
        "(db, ok') \<in> set (List.map_filter notified new)"
        by blast
      then show ?thesis
        by (intro exI [of _ ok']) (simp add: map_filter_append)
    next
      case False
      with \<open>db \<in> set (d # rest)\<close> have "db = d" by simp
      with False others have "map_of results' db = Some ?r"
        by (simp add: update_conv')
      with \<open>db = d\<close> one show ?thesis
        by (intro exI [of _ ok]) (simp add: map_filter_append)
    qed
  qed
  have c6: "\<forall>db. db \<notin> set (d # rest) \<longrightarrow> map_of results' db = map_of results db"
    using others by (simp add: update_conv')
  from c1 c2 c3 c4 c5 c6 show ?case
    by (intro exI [of _ "e1 @ new"] conjI)
qed

section \<open>Dropping a substring\<close>

lemma replace_del_length: "length (replace_del old s) \<le> length s"
proof (induction old s rule: replace_del.induct)
  case (1 old)
  then show ?case by simp
next
  case (2 old c cs)
  show ?case
  proof (cases "old \<noteq> [] \<and> take (length old) (c # cs) = old")
    case True
    with 2 have "length (replace_del old (drop (length old) (c # cs))) \<le>
        length (drop (length old) (c # cs))" by simp
    with True show ?thesis by simp
  next
    case False
    with 2 have "length (replace_del old cs) \<le> length cs" by simp
    with False show ?thesis by auto
  qed
qed

lemma replace_del_changes:
  assumes "old \<noteq> []" and "s = xs @ old @ ys"
  shows "replace_del old s \<noteq> s"
  using assms
proof (induction old s arbitrary: xs rule: replace_del.induct)
  case (1 old)
  then show ?case by simp
next
  case (2 old c cs)
  show ?case
  proof (cases "take (length old) (c # cs) = old")
    case True
    have "length (replace_del old (drop (length old) (c # cs))) \<le>
        length (drop (length old) (c # cs))" by (rule replace_del_length)
    also have "\<dots> < length (c # cs)" using 2(3) by (cases old) auto
    finally have "length (replace_del old (c # cs)) < length (c # cs)"
      using True 2(3) by simp
    then show ?thesis by auto
  next
    case False
    with 2(4) have "xs \<noteq> []" by auto
    then obtain xs' where xs: "xs = c # xs'" using 2(4) by (cases xs) auto
    with 2(4) have "cs = xs' @ old @ ys" by simp
    with 2(2) [OF _ 2(3) this] False 2(3) have "replace_del old cs \<noteq> cs" by simp
    with False show ?thesis by simp
  qed
qed

lemma decompressed_name_differs:
  assumes "endswith p ''.gz''"
  shows "replace_del ''.gz'' p \<noteq> p"
proof -
  from assms have "drop (length p - length ''.gz'') p = ''.gz''"
    by (simp add: endswith_def)
  then have "take (length p - length ''.gz'') p @ ''.gz'' @ [] = p"
    by (metis append_Nil2 append_take_drop_id)
  then have "p = take (length p - length ''.gz'') p @ ''.gz'' @ []" by (rule sym)
  then show ?thesis by (rule replace_del_changes [rotated]) simp
qed

text \<open>
  The other side of a restore from a compressed file: when the database step succeeds the
  decompressed file is removed and \<open>restore_database\<close> returns \<open>True\<close>.
\<close>

lemma restore_success_removes_decompressed_file:
  assumes "endswith backup_file ''.gz''"
    and "decompress_file backup_file s = (Some d, s1)"
    and "restore_backup c database d s1"
  shows "restore_database c database backup_file s =
           (True, s1\<lparr>files := AList.delete d (files s1)\<rparr>)"
proof -
  have ne: "replace_del ''.gz'' backup_file \<noteq> backup_file"
    using assms(1) by (rule decompressed_name_differs)
  from assms(2) have ex: "os_path_exists (files s) backup_file"
    by (auto simp: decompress_file_def os_path_exists_def Let_def split: option.splits)
  from assms(2) ne have d: "d \<noteq> []" "d \<noteq> backup_file"
    and f: "\<exists>n. map_of (files s1) d = Some (new_file (now s) n)"
    by (auto simp: decompress_file_def Let_def map_of_write_file
             split: option.splits if_splits)
  from f have "os_path_exists (files s1) d"
    and "os_remove (files s1) d = Some (AList.delete d (files s1))"
    by (auto simp: os_path_exists_def os_remove_def new_file_def)
  with assms ex d show ?thesis by (simp add: restore_database_def)
qed

section \<open>The eviction loops, removal by removal\<close>

lemma os_remove_after_delete:
  "os_remove fs p = None \<Longrightarrow> os_remove (AList.delete k fs) p = None"
  by (auto simp: os_remove_def delete_conv' split: option.splits if_splits)

text \<open>
  The age loop on a listing whose expired entries are \<open>gone\<close>, all removable, followed by
  \<open>b\<close>, whose removal raises: the loop is left at \<open>b\<close> with the entries of \<open>gone\<close> removed.
\<close>

lemma remove_old_fails:
  assumes "distinct (map path bs)"
    and "filter (\<lambda>x. created x < c) bs = gone @ b # rest"
    and "\<forall>x\<in>set gone. \<exists>f. map_of fs (path x) = Some f \<and> removable f"
    and "os_remove fs (path b) = None"
  shows "remove_old c bs (fs, n, evs) =
           Inl (filter (\<lambda>e. fst e \<notin> path ` set gone) fs, n + length gone,
                evs @ concat (map (\<lambda>x. [Os_remove (path x), Log_removed_old (filename x)]) gone) @
                [Os_remove (path b)])"
  using assms
proof (induction bs arbitrary: gone fs n evs)
  case Nil
  then show ?case by simp
next
  case (Cons a bs)
  note prems = Cons.prems and IH = Cons.IH
  show ?case
  proof (cases "created a < c")
    case False
    with prems have "filter (\<lambda>x. created x < c) bs = gone @ b # rest"
      and "distinct (map path bs)" by simp_all
    from IH [OF this(2) this(1) prems(3,4)] False show ?thesis by simp
  next
    case True
    with prems(2) have eq: "a # filter (\<lambda>x. created x < c) bs = gone @ b # rest" by simp
    show ?thesis
    proof (cases gone)
      case Nil
      with eq have "a = b" by simp
      with True Nil prems(4) show ?thesis by simp
    next
      case (Cons d gone')
      with eq have a: "a = d" and rest: "filter (\<lambda>x. created x < c) bs = gone' @ b # rest"
        by simp_all
      from prems(3) Cons a obtain f where f: "map_of fs (path a) = Some f" "removable f"
        by auto
      let ?fs = "AList.delete (path a) fs"
      have rm: "os_remove fs (path a) = Some ?fs" using f by (simp add: os_remove_def)
      have dist: "distinct (map path bs)" using prems(1) by simp
      have "set gone' \<subseteq> set bs"
        using rest by (metis filter_is_subset set_append sup.boundedE)
      then have "path x \<noteq> path a" if "x \<in> set gone'" for x
        using that prems(1) by (auto simp: image_iff) (metis subsetD)
      then have ok: "\<forall>x\<in>set gone'. \<exists>f. map_of ?fs (path x) = Some f \<and> removable f"
        using prems(3) Cons by (simp add: delete_conv')
      have bad: "os_remove ?fs (path b) = None"
        using prems(4) by (rule os_remove_after_delete)
      from IH [OF dist rest ok bad]
      have "remove_old c bs
              (?fs, n + 1, evs @ [Os_remove (path a), Log_removed_old (filename a)]) =
            Inl (filter (\<lambda>e. fst e \<notin> path ` set gone') ?fs, n + 1 + length gone',
                 (evs @ [Os_remove (path a), Log_removed_old (filename a)]) @
                 concat (map (\<lambda>x. [Os_remove (path x), Log_removed_old (filename x)]) gone') @
                 [Os_remove (path b)])" .
      with True rm Cons a show ?thesis
        by (simp add: delete_as_filter filter_keys_twice)
    qed
  qed
qed


text \<open>The age loop when every expired entry can be removed: what it leaves, exactly.\<close>

lemma remove_old_succeeds:
  assumes "distinct (map path bs)"
    and "\<forall>x\<in>set bs. created x < c \<longrightarrow> (\<exists>f. map_of fs (path x) = Some f \<and> removable f)"
  shows "remove_old c bs (fs, n, evs) =
           Inr (filter (\<lambda>e. fst e \<notin> path ` set (filter (\<lambda>x. created x < c) bs)) fs,
                n + length (filter (\<lambda>x. created x < c) bs),
                evs @ concat (map (\<lambda>x. [Os_remove (path x), Log_removed_old (filename x)])
                                (filter (\<lambda>x. created x < c) bs)))"
  using assms
proof (induction bs arbitrary: fs n evs)
  case Nil
  then show ?case by simp
next
  case (Cons a bs)
  note prems = Cons.prems and IH = Cons.IH
  have dist: "distinct (map path bs)" using prems(1) by simp
  show ?case
  proof (cases "created a < c")
    case False
    from prems(2) have "\<forall>x\<in>set bs. created x < c \<longrightarrow>
        (\<exists>f. map_of fs (path x) = Some f \<and> removable f)" by simp
    from IH [OF dist this] False show ?thesis by simp
  next
    case True
    with prems(2) obtain f where f: "map_of fs (path a) = Some f" "removable f" by auto
    let ?fs = "AList.delete (path a) fs"
    have rm: "os_remove fs (path a) = Some ?fs" using f by (simp add: os_remove_def)
    have "path x \<noteq> path a" if "x \<in> set bs" for x
      using that prems(1) by (auto simp: image_iff)
    then have "\<forall>x\<in>set bs. created x < c \<longrightarrow>
        (\<exists>f. map_of ?fs (path x) = Some f \<and> removable f)"
      using prems(2) by (simp add: delete_conv')
    from IH [OF dist this] True rm show ?thesis
      by (simp add: delete_as_filter filter_keys_twice)
  qed
qed

lemma exists_after_delete:
  "p \<noteq> k \<Longrightarrow> os_path_exists (AList.delete k fs) p = os_path_exists fs p"
  by (simp add: os_path_exists_def delete_conv')

text \<open>
  The count loop on a list whose entries still on disk are \<open>gone\<close>, all removable, followed
  by \<open>b\<close>, whose removal raises; and the loop when every entry on disk can be removed.
\<close>

lemma remove_excess_fails:
  assumes "distinct (map path bs)"
    and "filter (\<lambda>x. os_path_exists fs (path x)) bs = gone @ b # rest"
    and "\<forall>x\<in>set gone. \<forall>f. map_of fs (path x) = Some f \<longrightarrow> removable f"
    and "os_remove fs (path b) = None"
  shows "remove_excess bs (fs, n, evs) =
           Inl (filter (\<lambda>e. fst e \<notin> path ` set gone) fs, n + length gone,
                evs @ concat (map (\<lambda>x. [Os_remove (path x), Log_removed_excess (filename x)]) gone) @
                [Os_remove (path b)])"
  using assms
proof (induction bs arbitrary: gone fs n evs)
  case Nil
  then show ?case by simp
next
  case (Cons a bs)
  note prems = Cons.prems and IH = Cons.IH
  have dist: "distinct (map path bs)" using prems(1) by simp
  show ?case
  proof (cases "os_path_exists fs (path a)")
    case False
    with prems(2) have "filter (\<lambda>x. os_path_exists fs (path x)) bs = gone @ b # rest"
      by simp
    from IH [OF dist this prems(3,4)] False show ?thesis by simp
  next
    case True
    with prems(2)
    have eq: "a # filter (\<lambda>x. os_path_exists fs (path x)) bs = gone @ b # rest" by simp
    show ?thesis
    proof (cases gone)
      case Nil
      with eq have "a = b" by simp
      with True Nil prems(4) show ?thesis by simp
    next
      case (Cons d gone')
      with eq have a: "a = d"
        and rest: "filter (\<lambda>x. os_path_exists fs (path x)) bs = gone' @ b # rest"
        by simp_all
      from True obtain f where f: "map_of fs (path a) = Some f"
        by (auto simp: os_path_exists_def)
      with prems(3) Cons a have "removable f" by simp
      let ?fs = "AList.delete (path a) fs"
      have rm: "os_remove fs (path a) = Some ?fs"
        using f \<open>removable f\<close> by (simp add: os_remove_def)
      have other: "path x \<noteq> path a" if "x \<in> set bs" for x
        using that prems(1) by (auto simp: image_iff)
      have "filter (\<lambda>x. os_path_exists ?fs (path x)) bs =
            filter (\<lambda>x. os_path_exists fs (path x)) bs"
        by (rule filter_cong) (simp_all add: other exists_after_delete)
      with rest have rest': "filter (\<lambda>x. os_path_exists ?fs (path x)) bs = gone' @ b # rest"
        by simp
      have ok: "\<forall>x\<in>set gone'. \<forall>f. map_of ?fs (path x) = Some f \<longrightarrow> removable f"
        using prems(3) Cons by (auto simp: delete_conv' split: if_splits)
      have bad: "os_remove ?fs (path b) = None"
        using prems(4) by (rule os_remove_after_delete)
      from IH [OF dist rest' ok bad]
      have "remove_excess bs
              (?fs, n + 1, evs @ [Os_remove (path a), Log_removed_excess (filename a)]) =
            Inl (filter (\<lambda>e. fst e \<notin> path ` set gone') ?fs, n + 1 + length gone',
                 (evs @ [Os_remove (path a), Log_removed_excess (filename a)]) @
                 concat (map (\<lambda>x. [Os_remove (path x), Log_removed_excess (filename x)]) gone') @
                 [Os_remove (path b)])" .
      with True rm Cons a show ?thesis
        by (simp add: delete_as_filter filter_keys_twice)
    qed
  qed
qed

lemma os_remove_after_filter:
  "os_remove fs p = None \<Longrightarrow> os_remove (filter (\<lambda>e. fst e \<notin> R) fs) p = None"
  by (auto simp: os_remove_def map_of_filter_keys split: option.splits if_splits)

lemma slice_from_is_drop: "\<exists>k. slice_from xs i = drop k xs"
  by (auto simp: slice_from_def)

text \<open>
  The removals a cleanup sets out to make, in order: the expired entries of the listing,
  then the entries beyond \<open>max_backups\<close> that are not expired. Their paths differ.
\<close>

lemma eviction_plan_distinct:
  assumes "distinct (map path bs)"
  shows "distinct (map path (filter (\<lambda>x. created x < c) bs @
                             filter (\<lambda>x. \<not> created x < c) (drop k bs)))"
proof -
  from assms have inj: "inj_on path (set bs)" and d: "distinct bs"
    by (simp_all add: distinct_map)
  have "distinct (filter (\<lambda>x. created x < c) bs @ filter (\<lambda>x. \<not> created x < c) (drop k bs))"
    using d by (auto dest: in_set_dropD)
  moreover have "set (filter (\<lambda>x. created x < c) bs @
                      filter (\<lambda>x. \<not> created x < c) (drop k bs)) \<subseteq> set bs"
    by (auto dest: in_set_dropD)
  ultimately show ?thesis
    using inj by (simp only: distinct_map) (blast intro: inj_on_subset)
qed


lemma listed_file_exists:
  assumes "x \<in> set (list_backups cfg fs db)"
  shows "\<exists>f. map_of fs (path x) = Some f"
proof -
  from assms have "get_backup_info fs (path x) = Some x" by (rule list_backups_info)
  then show ?thesis by (auto simp: get_backup_info_def split: option.splits)
qed

text \<open>
  A cleanup in which a removal raises. \<open>gone\<close> are the planned removals before \<open>b\<close>, all
  of files that can be removed; the file of \<open>b\<close> cannot.
\<close>

lemma cleanup_fails_at:
  assumes dist: "distinct (map fst fs)"
    and cut: "now_minus_days t (retention_days cfg) = Some c"
    and plan: "filter (\<lambda>x. created x < c) (list_backups cfg fs db) @
               (if int (length (list_backups cfg fs db)) > max_backups cfg
                then filter (\<lambda>x. \<not> created x < c)
                       (slice_from (list_backups cfg fs db) (max_backups cfg))
                else []) = gone @ b # rest"
    and ok: "\<forall>x\<in>set gone. \<forall>f. map_of fs (path x) = Some f \<longrightarrow> removable f"
    and bad: "\<forall>f. map_of fs (path b) = Some f \<longrightarrow> \<not> removable f"
  shows "cleanup_old_backups cfg t fs db =
           (length gone, filter (\<lambda>e. fst e \<notin> path ` set gone) fs,
            concat (map (\<lambda>x. [Os_remove (path x),
                               if created x < c then Log_removed_old (filename x)
                               else Log_removed_excess (filename x)]) gone) @
            [Os_remove (path b), Log_error_during_cleanup])"
proof -
  define bs where "bs = list_backups cfg fs db"
  define E where "E = filter (\<lambda>x. created x < c) bs"
  define S where "S = slice_from bs (max_backups cfg)"
  define X where "X = (if int (length bs) > max_backups cfg
                       then filter (\<lambda>x. \<not> created x < c) S else [])"
  define ev where "ev = (\<lambda>x :: backup_info. [Os_remove (path x),
                               if created x < c then Log_removed_old (filename x)
                               else Log_removed_excess (filename x)])"
  have plan': "E @ X = gone @ b # rest"
    using plan unfolding E_def X_def S_def bs_def .
  have dp: "distinct (map path bs)"
    unfolding bs_def using dist by (rule list_backups_distinct)
  then have inj: "inj_on path (set bs)" by (simp add: distinct_map)
  have ex: "\<exists>f. map_of fs (path x) = Some f" if "x \<in> set bs" for x
    using that unfolding bs_def by (rule listed_file_exists)
  obtain k where S: "S = drop k bs"
    unfolding S_def using slice_from_is_drop by blast
  have Ebs: "set E \<subseteq> set bs" by (auto simp: E_def)
  have Xbs: "set X \<subseteq> set bs" by (auto simp: X_def S dest: in_set_dropD)
  have bad': "os_remove fs (path b) = None"
    using bad by (auto simp: os_remove_def split: option.splits)
  have run: "cleanup_old_backups cfg t fs db =
      (case remove_old c bs (fs, 0, []) of
                Inl (fs1, n1, evs1) \<Rightarrow> (n1, fs1, evs1 @ [Log_error_during_cleanup])
              | Inr (fs1, n1, evs1) \<Rightarrow>
                  (case (if int (length bs) > max_backups cfg
                         then remove_excess S (fs1, n1, evs1)
                         else Inr (fs1, n1, evs1)) of
                     Inl (fs2, n2, evs2) \<Rightarrow> (n2, fs2, evs2 @ [Log_error_during_cleanup])
                   | Inr (fs2, n2, evs2) \<Rightarrow>
                       (n2, fs2, if n2 > 0 then evs2 @ [Log_cleanup_completed n2] else evs2)))"
    unfolding bs_def S_def by (simp add: cleanup_old_backups_def Let_def cut)
  from plan' [unfolded append_eq_append_conv2]
  consider (age) us where "E = gone @ b # us"
    | (count) us where "gone = E @ us" "X = us @ b # rest"
    by (auto simp: Cons_eq_append_conv append_eq_Cons_conv)
  then show ?thesis
  proof cases
    case age
    have gE: "set gone \<subseteq> set E" using age by auto
    have "\<forall>x\<in>set gone. \<exists>f. map_of fs (path x) = Some f \<and> removable f"
      using ex ok gE Ebs by (meson subsetD)
    from remove_old_fails [OF dp age [unfolded E_def] this bad', of 0 "[]"]
    have "remove_old c bs (fs, 0, []) =
           Inl (filter (\<lambda>e. fst e \<notin> path ` set gone) fs, length gone,
                concat (map (\<lambda>x. [Os_remove (path x), Log_removed_old (filename x)]) gone) @
                [Os_remove (path b)])"
      by simp
    moreover have "map (\<lambda>x. [Os_remove (path x), Log_removed_old (filename x)]) gone =
          map ev gone"
      using gE by (intro map_cong) (auto simp: ev_def E_def)
    ultimately show ?thesis
      unfolding run ev_def [symmetric] by simp
  next
    case count
    have "\<forall>x\<in>set bs. created x < c \<longrightarrow> (\<exists>f. map_of fs (path x) = Some f \<and> removable f)"
    proof (intro ballI impI)
      fix x assume x: "x \<in> set bs" "created x < c"
      then have "x \<in> set gone" using count(1) by (simp add: E_def)
      with ex [OF x(1)] ok show "\<exists>f. map_of fs (path x) = Some f \<and> removable f" by blast
    qed
    from remove_old_succeeds [OF dp this, of 0 "[]"]
    have first: "remove_old c bs (fs, 0, []) =
           Inr (filter (\<lambda>e. fst e \<notin> path ` set E) fs, length E,
                concat (map (\<lambda>x. [Os_remove (path x), Log_removed_old (filename x)]) E))"
      by (simp add: E_def)
    let ?fs1 = "filter (\<lambda>e. fst e \<notin> path ` set E) fs"
    from count(2) have "X \<noteq> []" by simp
    then have many: "int (length bs) > max_backups cfg"
      and X: "X = filter (\<lambda>x. \<not> created x < c) S"
      by (auto simp: X_def split: if_splits)
    have dS: "distinct (map path S)"
      unfolding S using dp by (simp add: drop_map [symmetric])
    have on_disk: "os_path_exists ?fs1 (path x) = (\<not> created x < c)" if "x \<in> set S" for x
    proof -
      from that have xb: "x \<in> set bs" unfolding S by (rule in_set_dropD)
      have "path x \<in> path ` set E \<longleftrightarrow> x \<in> set E"
        using inj xb Ebs by (auto simp: inj_on_def)
      with ex [OF xb] xb show ?thesis
        by (auto simp: os_path_exists_def map_of_filter_keys E_def)
    qed
    have "filter (\<lambda>x. os_path_exists ?fs1 (path x)) S = filter (\<lambda>x. \<not> created x < c) S"
      by (rule filter_cong) (simp_all add: on_disk)
    with X count(2)
    have split: "filter (\<lambda>x. os_path_exists ?fs1 (path x)) S = us @ b # rest" by simp
    have ok1: "\<forall>x\<in>set us. \<forall>f. map_of ?fs1 (path x) = Some f \<longrightarrow> removable f"
      using ok count(1) by (auto simp: map_of_filter_keys split: if_splits)
    have bad1: "os_remove ?fs1 (path b) = None"
      using bad' by (rule os_remove_after_filter)
    from remove_excess_fails [OF dS split ok1 bad1]
    have second: "remove_excess S (?fs1, length E,
            concat (map (\<lambda>x. [Os_remove (path x), Log_removed_old (filename x)]) E)) =
          Inl (filter (\<lambda>e. fst e \<notin> path ` set us) ?fs1, length E + length us,
               concat (map (\<lambda>x. [Os_remove (path x), Log_removed_old (filename x)]) E) @
               concat (map (\<lambda>x. [Os_remove (path x), Log_removed_excess (filename x)]) us) @
               [Os_remove (path b)])" .
    have e1: "map (\<lambda>x. [Os_remove (path x), Log_removed_old (filename x)]) E = map ev E"
      by (intro map_cong) (auto simp: ev_def E_def)
    have "set us \<subseteq> set X" using count(2) by auto
    then have e2: "map (\<lambda>x. [Os_remove (path x), Log_removed_excess (filename x)]) us = map ev us"
      unfolding X by (intro map_cong) (auto simp: ev_def)
    show ?thesis
      unfolding run first ev_def [symmetric]
      using many second by (simp add: e1 e2 count(1) image_Un)
  qed
qed

section \<open>One database: the paths of a run\<close>

lemma prepare_backup_paths:
  "prepare_backup cfg c database s0 =
     (case test_connection c s0 of (connected, s1) \<Rightarrow>
      if \<not> connected then Inl (''Database connection failed'', s1, [Test_connection])
      else
        (case create_backup c database (temp_sql_file cfg c database s1) s1 of (dumped, s2) \<Rightarrow>
           if \<not> dumped
           then Inl (''Failed to create database dump'', s2,
                     [Test_connection, Create_backup database (temp_sql_file cfg c database s1)])
           else
             (case (if compression (backup cfg)
                    then compress_step c (temp_sql_file cfg c database s1) s2
                           [Test_connection,
                            Create_backup database (temp_sql_file cfg c database s1)]
                    else Inr (new_backup_path cfg c database s1, s2,
                              [Test_connection,
                               Create_backup database (temp_sql_file cfg c database s1)])) of
                Inl failure \<Rightarrow> Inl failure
              | Inr (backup_path', s3, evs3) \<Rightarrow>
                  if \<not> verify_backup (files s3) backup_path'
                  then Inl (''Backup verification failed'', s3,
                            evs3 @ [Verify_backup backup_path'])
                  else Inr (backup_path', s3, evs3 @ [Verify_backup backup_path']))))"
  unfolding prepare_backup_def temp_sql_file_def new_backup_path_def Let_def ..

section \<open>Retention\<close>




section \<open>Claim about a failing removal\<close>

text \<open>
  Claim C5, as the code has it. The body of \<open>cleanup_old_backups\<close> is one \<open>try\<close> block, so an
  exception of \<open>os.remove\<close> ends the cleanup. The removals a cleanup sets out to make are, in
  order, the expired entries of the listing and then the entries beyond \<open>max_backups\<close> that
  are not expired. When the files of the first of them, \<open>gone\<close>, can be removed and the file
  of the next, \<open>b\<close>, cannot, the cleanup removes exactly the files of \<open>gone\<close>, returns their
  number, and the last things it does are the failed \<open>os.remove\<close> of \<open>b\<close> and the error line
  in the log. The entries planned after \<open>b\<close> are never attempted and stay on disk.
\<close>

theorem cleanup_stops_at_failed_removal:
  assumes "distinct (map fst fs)"
    and "now_minus_days t (retention_days cfg) = Some c"
    and "filter (\<lambda>x. created x < c) (list_backups cfg fs db) @
         (if int (length (list_backups cfg fs db)) > max_backups cfg
          then filter (\<lambda>x. \<not> created x < c)
                 (slice_from (list_backups cfg fs db) (max_backups cfg))
          else []) = gone @ b # rest"
    and "\<forall>x\<in>set gone. \<forall>f. map_of fs (path x) = Some f \<longrightarrow> removable f"
    and "\<forall>f. map_of fs (path b) = Some f \<longrightarrow> \<not> removable f"
  shows "cleanup_old_backups cfg t fs db =
           (length gone, filter (\<lambda>e. fst e \<notin> path ` set gone) fs,
            concat (map (\<lambda>x. [Os_remove (path x),
                               if created x < c then Log_removed_old (filename x)
                               else Log_removed_excess (filename x)]) gone) @
            [Os_remove (path b), Log_error_during_cleanup]) \<and>
         (\<forall>y\<in>set rest.
            os_path_exists (filter (\<lambda>e. fst e \<notin> path ` set gone) fs) (path y) \<and>
            Os_remove (path y) \<notin>
              set (concat (map (\<lambda>x. [Os_remove (path x),
                               if created x < c then Log_removed_old (filename x)
                               else Log_removed_excess (filename x)]) gone) @
                   [Os_remove (path b), Log_error_during_cleanup]))"
proof (rule conjI)
  show "cleanup_old_backups cfg t fs db =
           (length gone, filter (\<lambda>e. fst e \<notin> path ` set gone) fs,
            concat (map (\<lambda>x. [Os_remove (path x),
                               if created x < c then Log_removed_old (filename x)
                               else Log_removed_excess (filename x)]) gone) @
            [Os_remove (path b), Log_error_during_cleanup])"
    using assms by (rule cleanup_fails_at)
next
  let ?bs = "list_backups cfg fs db"
  have dp: "distinct (map path ?bs)" using assms(1) by (rule list_backups_distinct)
  obtain k where "(if int (length ?bs) > max_backups cfg
          then filter (\<lambda>x. \<not> created x < c) (slice_from ?bs (max_backups cfg))
          else []) = filter (\<lambda>x. \<not> created x < c) (drop k ?bs)"
  proof (cases "int (length ?bs) > max_backups cfg")
    case True
    obtain k where "slice_from ?bs (max_backups cfg) = drop k ?bs"
      using slice_from_is_drop by blast
    with True that show ?thesis by simp
  next
    case False
    with that [of "length ?bs"] show ?thesis by simp
  qed
  with assms(3)
  have plan: "filter (\<lambda>x. created x < c) ?bs @ filter (\<lambda>x. \<not> created x < c) (drop k ?bs) =
      gone @ b # rest" by simp
  from eviction_plan_distinct [OF dp, of c k]
  have dplan: "distinct (map path (gone @ b # rest))" by (simp only: plan)
  show "\<forall>y\<in>set rest.
            os_path_exists (filter (\<lambda>e. fst e \<notin> path ` set gone) fs) (path y) \<and>
            Os_remove (path y) \<notin>
              set (concat (map (\<lambda>x. [Os_remove (path x),
                               if created x < c then Log_removed_old (filename x)
                               else Log_removed_excess (filename x)]) gone) @
                   [Os_remove (path b), Log_error_during_cleanup])"
  proof
    fix y assume y: "y \<in> set rest"
    with dplan have ny: "path y \<notin> path ` set gone" "path y \<noteq> path b"
      by (auto simp: image_iff)
    have "y \<in> set (filter (\<lambda>x. created x < c) ?bs @
                    filter (\<lambda>x. \<not> created x < c) (drop k ?bs))"
      using y by (simp only: plan) simp
    then have "y \<in> set ?bs" by (auto dest: in_set_dropD)
    then obtain f where "map_of fs (path y) = Some f"
      using listed_file_exists by blast
    with ny(1) have "os_path_exists (filter (\<lambda>e. fst e \<notin> path ` set gone) fs) (path y)"
      by (simp add: os_path_exists_def map_of_filter_keys)
    moreover have "Os_remove (path y) \<notin>
              set (concat (map (\<lambda>x. [Os_remove (path x),
                               if created x < c then Log_removed_old (filename x)
                               else Log_removed_excess (filename x)]) gone) @
                   [Os_remove (path b), Log_error_during_cleanup])"
      using ny by auto
    ultimately show "os_path_exists (filter (\<lambda>e. fst e \<notin> path ` set gone) fs) (path y) \<and>
            Os_remove (path y) \<notin>
              set (concat (map (\<lambda>x. [Os_remove (path x),
                               if created x < c then Log_removed_old (filename x)
                               else Log_removed_excess (filename x)]) gone) @
                   [Os_remove (path b), Log_error_during_cleanup])" ..
  qed
qed

text \<open>
  Witness for C5: three expired backups of \<open>d\<close>, of which the second newest cannot be
  removed. The newest is removed and counted, the oldest is left alone.
\<close>

theorem cleanup_stops_at_failed_removal_witness:
  "cleanup_old_backups example_config 4000005
     [(''b/d_1.sql'', example_file 0), (''b/d_2.sql'', (example_file 5)\<lparr>removable := False\<rparr>),
      (''b/d_3.sql'', example_file 7)]
     (Some ''d'') =
     (1,
      [(''b/d_1.sql'', example_file 0), (''b/d_2.sql'', (example_file 5)\<lparr>removable := False\<rparr>)],
      [Os_remove ''b/d_3.sql'', Log_removed_old ''d_3.sql'',
       Os_remove ''b/d_2.sql'', Log_error_during_cleanup])"
proof -
  let ?fs = "[(''b/d_1.sql'', example_file 0), (''b/d_2.sql'', (example_file 5)\<lparr>removable := False\<rparr>),
      (''b/d_3.sql'', example_file 7)]"
  let ?d1 = "\<lparr>filename = ''d_1.sql'', path = ''b/d_1.sql'', info_size = 10, created = 0\<rparr>"
  let ?d2 = "\<lparr>filename = ''d_2.sql'', path = ''b/d_2.sql'', info_size = 10, created = 5\<rparr>"
  let ?d3 = "\<lparr>filename = ''d_3.sql'', path = ''b/d_3.sql'', info_size = 10, created = 7\<rparr>"
  have h1: "distinct (map fst ?fs)" by simp
  have h2: "now_minus_days 4000005 (retention_days example_config) = Some 1408005"
    by (simp add: now_minus_days_def timedelta_days_def datetime_minus_def datetime_min_def
          datetime_max_def seconds_per_day_def example_config_def)
  have h3: "filter (\<lambda>x. created x < 1408005) (list_backups example_config ?fs (Some ''d'')) @
         (if int (length (list_backups example_config ?fs (Some ''d''))) >
               max_backups example_config
          then filter (\<lambda>x. \<not> created x < 1408005)
                 (slice_from (list_backups example_config ?fs (Some ''d''))
                    (max_backups example_config))
          else []) = [?d3] @ ?d2 # [?d1]"
    by code_simp
  have h4: "\<forall>x\<in>set [?d3]. \<forall>f. map_of ?fs (path x) = Some f \<longrightarrow> removable f"
    by (simp add: example_file_def)
  have h5: "\<forall>f. map_of ?fs (path ?d2) = Some f \<longrightarrow> \<not> removable f"
    by (simp add: example_file_def)
  from cleanup_stops_at_failed_removal [OF h1 h2 h3 h4 h5]
  have "cleanup_old_backups example_config 4000005 ?fs (Some ''d'') =
      (length [?d3], filter (\<lambda>e. fst e \<notin> path ` set [?d3]) ?fs,
            concat (map (\<lambda>x. [Os_remove (path x),
                               if created x < 1408005 then Log_removed_old (filename x)
                               else Log_removed_excess (filename x)]) [?d3]) @
            [Os_remove (path ?d2), Log_error_during_cleanup])"
    by (rule conjunct1)
  then show ?thesis by simp
qed

text \<open>
  Counterexample to C5 as stated: two expired backups, the newer of which cannot be
  removed. Its removal fails, and \<open>b/d_1.sql\<close>, which is older than the retention period as
  well, is never attempted and stays where it is.
\<close>

theorem cleanup_error_aborts_counterexample:
  "cleanup_old_backups example_config 4000005
     [(''b/d_1.sql'', example_file 0), (''b/d_2.sql'', (example_file 5)\<lparr>removable := False\<rparr>)]
     (Some ''d'') =
     (0,
      [(''b/d_1.sql'', example_file 0), (''b/d_2.sql'', (example_file 5)\<lparr>removable := False\<rparr>)],
      [Os_remove ''b/d_2.sql'', Log_error_during_cleanup]) \<and>
   st_ctime (example_file 0) < 4000005 - retention_days example_config * seconds_per_day \<and>
   Os_remove ''b/d_1.sql'' \<notin> set [Os_remove ''b/d_2.sql'', Log_error_during_cleanup] \<and>
   os_path_exists
     [(''b/d_1.sql'', example_file 0), (''b/d_2.sql'', (example_file 5)\<lparr>removable := False\<rparr>)]
     ''b/d_1.sql''"
proof -
  have "cleanup_old_backups example_config 4000005
     [(''b/d_1.sql'', example_file 0), (''b/d_2.sql'', (example_file 5)\<lparr>removable := False\<rparr>)]
     (Some ''d'') =
     (0,
      [(''b/d_1.sql'', example_file 0), (''b/d_2.sql'', (example_file 5)\<lparr>removable := False\<rparr>)],
      [Os_remove ''b/d_2.sql'', Log_error_during_cleanup])"
    by code_simp
  moreover have
    "st_ctime (example_file 0) < 4000005 - retention_days example_config * seconds_per_day"
    by (simp add: example_file_def example_config_def seconds_per_day_def)
  moreover have
    "Os_remove ''b/d_1.sql'' \<notin> set [Os_remove ''b/d_2.sql'', Log_error_during_cleanup]"
    by simp
  moreover have "os_path_exists
     [(''b/d_1.sql'', example_file 0), (''b/d_2.sql'', (example_file 5)\<lparr>removable := False\<rparr>)]
     ''b/d_1.sql''"
    by (simp add: os_path_exists_def)
  ultimately show ?thesis by (intro conjI)
qed

section \<open>Verification of a backup file\<close>

text \<open>
  Claim C8, as the code has it. \<open>verify_backup\<close> fails exactly when the file is missing, is
  zero-length, or has a name ending in \<open>.gz\<close> and the gzip reader cannot produce its first
  byte. So a zero-byte file fails, and a non-empty file holding a whole gzip member passes.
\<close>

theorem verify_backup_first_byte:
  "((\<not> verify_backup fs p) =
      (map_of fs p = None \<or>
       (\<exists>f. map_of fs p = Some f \<and>
            (st_size f = 0 \<or> (endswith p ''.gz'' \<and> \<not> gzip_read1 (gz f)))))) \<and>
   (map_of fs p = Some f \<and> st_size f = 0 \<longrightarrow> \<not> verify_backup fs p) \<and>
   (map_of fs p = Some f \<and> st_size f \<noteq> 0 \<and> gz f = Complete n \<longrightarrow> verify_backup fs p)"
  by (auto simp: verify_backup_def os_path_exists_def split: option.splits)

text \<open>Witness for C8: an empty file and a whole gzip file.\<close>

theorem verify_backup_first_byte_witness:
  "\<not> verify_backup [(''e.sql.gz'', \<lparr>st_size = 0, st_ctime = 0, gz = Not_gzip, removable = True\<rparr>)]
       ''e.sql.gz'' \<and>
   verify_backup [(''v.sql.gz'', \<lparr>st_size = 25, st_ctime = 0, gz = Complete 5, removable = True\<rparr>)]
       ''v.sql.gz''"
  using verify_backup_first_byte
          [of "[(''e.sql.gz'', \<lparr>st_size = 0, st_ctime = 0, gz = Not_gzip, removable = True\<rparr>)]"
              "''e.sql.gz''" "\<lparr>st_size = 0, st_ctime = 0, gz = Not_gzip, removable = True\<rparr>" 0]
        verify_backup_first_byte
          [of "[(''v.sql.gz'', \<lparr>st_size = 25, st_ctime = 0, gz = Complete 5, removable = True\<rparr>)]"
              "''v.sql.gz''" "\<lparr>st_size = 25, st_ctime = 0, gz = Complete 5, removable = True\<rparr>" 5]
  by simp

text \<open>
  Counterexample to C8 as stated: a non-empty \<open>.gz\<close> file whose compressed data break off
  after the first byte. Its end-of-stream marker cannot be read back, and it is neither
  missing nor empty, yet \<open>verify_backup\<close> passes it.
\<close>

theorem verify_backup_end_of_stream_counterexample:
  "\<not> ((\<not> verify_backup
          [(''db.sql.gz'', \<lparr>st_size = 64, st_ctime = 0, gz = Truncated 1, removable = True\<rparr>)]
          ''db.sql.gz'') =
       (\<not> os_path_exists
          [(''db.sql.gz'', \<lparr>st_size = 64, st_ctime = 0, gz = Truncated 1, removable = True\<rparr>)]
          ''db.sql.gz'' \<or>
        st_size \<lparr>st_size = 64, st_ctime = 0, gz = Truncated 1, removable = True\<rparr> = 0 \<or>
        (endswith ''db.sql.gz'' ''.gz'' \<and>
         \<not> end_of_stream_readable
             (gz \<lparr>st_size = 64, st_ctime = 0, gz = Truncated 1, removable = True\<rparr>))))"
  by (simp add: verify_backup_def os_path_exists_def endswith_def)

section \<open>Upload\<close>

text \<open>
  Claim C9. When the local file does not exist, \<open>upload_backup\<close> returns the one-entry
  mapping \<open>{'error': False}\<close>, leaves the state as it was and attempts no target.
\<close>

theorem upload_backup_missing_file:
  "\<not> os_path_exists (files s) local_file \<Longrightarrow>
   upload_backup cfg c local_file s = ([(''error'', False)], s, [])"
  by (simp add: upload_backup_def)

text \<open>Witness for C9: all three targets enabled, and a path that is not in the directory.\<close>

theorem upload_backup_missing_file_witness:
  "\<not> os_path_exists (files example_sys) ''b/none.sql.gz'' \<and>
   upload_backup (storage example_orchestrator_config) example_collaborators
     ''b/none.sql.gz'' example_sys = ([(''error'', False)], example_sys, [])"
proof -
  have h: "\<not> os_path_exists (files example_sys) ''b/none.sql.gz''"
    by (simp add: example_sys_def example_fs_def os_path_exists_def)
  from upload_backup_missing_file [OF h] h show ?thesis by simp
qed

section \<open>Restore\<close>

text \<open>
  Claim C10. When the backup file is compressed, the decompression has succeeded and the
  database restore step then fails, \<open>restore_database\<close> returns failure in the state the
  decompression left, in which the decompressed file exists: it is removed on the
  success path only.
\<close>

theorem restore_failure_keeps_decompressed_file:
  assumes "endswith backup_file ''.gz''"
    and "decompress_file backup_file s = (Some d, s1)"
    and "\<not> restore_backup c database d s1"
  shows "restore_database c database backup_file s = (False, s1) \<and> os_path_exists (files s1) d"
proof -
  from assms(2) have ex: "os_path_exists (files s) backup_file"
    by (auto simp: decompress_file_def os_path_exists_def Let_def split: option.splits)
  from assms(2) have d: "d \<noteq> []" "os_path_exists (files s1) d"
    by (auto simp: decompress_file_def os_path_exists_def Let_def map_of_write_file
             split: option.splits if_splits)
  show ?thesis using assms ex d by (simp add: restore_database_def)
qed

text \<open>
  Witness for C10: one compressed backup and a database client that fails. The
  decompressed file \<open>b/d_1.sql\<close> is there afterwards.
\<close>

theorem restore_failure_keeps_decompressed_file_witness:
  "restore_database example_collaborators ''d'' ''b/d_1.sql.gz''
     \<lparr>files = [(''b/d_1.sql.gz'', example_file 0)], now = 7\<rparr> =
     (False, \<lparr>files = [(''b/d_1.sql.gz'', example_file 0), (''b/d_1.sql'', new_file 7 5)], now = 7\<rparr>) \<and>
   os_path_exists [(''b/d_1.sql.gz'', example_file 0), (''b/d_1.sql'', new_file 7 5)] ''b/d_1.sql''"
proof -
  let ?s = "\<lparr>files = [(''b/d_1.sql.gz'', example_file 0)], now = 7\<rparr>"
  let ?s1 = "\<lparr>files = [(''b/d_1.sql.gz'', example_file 0), (''b/d_1.sql'', new_file 7 5)], now = 7\<rparr>"
  have h1: "endswith ''b/d_1.sql.gz'' ''.gz''" by (simp add: endswith_def)
  have h2: "decompress_file ''b/d_1.sql.gz'' ?s = (Some ''b/d_1.sql'', ?s1)"
    by (simp add: decompress_file_def example_file_def write_file_def Let_def)
  have h3: "\<not> restore_backup example_collaborators ''d'' ''b/d_1.sql'' ?s1"
    by (simp add: restore_backup_def example_collaborators_def)
  from restore_failure_keeps_decompressed_file [OF h1 h2 h3] show ?thesis by simp
qed

section \<open>Claims about one database\<close>

text \<open>
  Claim C2. When the connection test, the dump, the compression (if configured) and the
  verification have succeeded, the run returns \<open>True\<close> whatever the targets answer. Every
  enabled target is called, in the order local, FTP, SFTP, Google Drive, each after the one
  before it whatever that one answered, and the success notification carries the outcome
  of each.
\<close>

theorem upload_failure_is_not_fatal:
  assumes "prepare_backup cfg c db s0 = Inr (p, s3, evs3)"
    and "upload_ftp c p s3 = (ftp_ok, s4)"
    and "upload_sftp c p (if ftp_enabled (storage cfg) then s4 else s3) = (sftp_ok, s5)"
    and "google_drive_upload c p
           (if sftp_enabled (storage cfg) then s5
            else if ftp_enabled (storage cfg) then s4 else s3) = (gdrive_ok, s6)"
  shows "\<exists>s details.
     backup_single_database cfg c db s0 =
       (True, s,
        evs3 @
        (if local_enabled (storage cfg) then [Handle_local_storage p] else []) @
        (if ftp_enabled (storage cfg) then [Upload_ftp p] else []) @
        (if sftp_enabled (storage cfg) then [Upload_sftp p] else []) @
        (if google_drive_enabled cfg then [Google_drive_upload p] else []) @
        [Cleanup_old_backups db,
         Send_backup_notification (Backup_successful db p details)]) \<and>
     storage_results details =
       (if local_enabled (storage cfg) then [(''local'', True)] else []) @
       (if ftp_enabled (storage cfg) then [(''ftp'', ftp_ok)] else []) @
       (if sftp_enabled (storage cfg) then [(''sftp'', sftp_ok)] else []) @
       (if google_drive_enabled cfg
        then [(''google_drive'', (case gdrive_ok of None \<Rightarrow> False | Some b \<Rightarrow> b))] else [])"
proof -
  have ex: "os_path_exists (files s3) p"
    using assms(1) by (intro verified_exists prepare_backup_verified)
  let ?s1 = "if google_drive_enabled cfg then s6
       else if sftp_enabled (storage cfg) then s5
       else if ftp_enabled (storage cfg) then s4 else s3"
  obtain removed_count fs2 cleanup_evs where
    cl: "cleanup_old_backups (backup cfg) (now ?s1) (files ?s1) (Some db) =
           (removed_count, fs2, cleanup_evs)"
    by (cases "cleanup_old_backups (backup cfg) (now ?s1) (files ?s1) (Some db)")
  have "try_backup cfg c db (now s0) s0 =
          Inr (finish_backup cfg c db (now s0) p s3 evs3)"
    by (simp add: try_backup_def assms(1))
  then show ?thesis
    by (simp add: backup_single_database_def finish_backup_def Let_def
          all_uploads [OF ex assms(2-4)] cl)
qed

text \<open>
  Witness for C2: the example run of database \<open>d\<close>, in which the FTP, SFTP and Google
  Drive uploads all fail.
\<close>

theorem upload_failure_is_not_fatal_witness:
  "fst (backup_single_database example_orchestrator_config example_collaborators ''d''
          example_sys) = True \<and>
   fst (upload_ftp example_collaborators ''b/d_full_5.sql.gz''
          \<lparr>files = example_fs @
             [(''b/d_full_5.sql.gz'',
               \<lparr>st_size = 40, st_ctime = 4000011, gz = Complete 100, removable = True\<rparr>)],
           now = 4000013\<rparr>) = False"
proof -
  let ?p = "''b/d_full_5.sql.gz''"
  let ?s3 = "\<lparr>files = example_fs @
             [(''b/d_full_5.sql.gz'',
               \<lparr>st_size = 40, st_ctime = 4000011, gz = Complete 100, removable = True\<rparr>)],
           now = 4000013\<rparr>"
  have h1: "prepare_backup example_orchestrator_config example_collaborators ''d'' example_sys =
      Inr (?p, ?s3,
           [Test_connection, Create_backup ''d'' ''b/d_full_5.sql'',
            Compress_file ''b/d_full_5.sql'', Verify_backup ''b/d_full_5.sql.gz''])"
    by code_simp
  have h2: "upload_ftp example_collaborators ?p ?s3 = (False, ?s3\<lparr>now := 4000016\<rparr>)"
    by (simp add: example_collaborators_def)
  have h3: "upload_sftp example_collaborators ?p
      (if ftp_enabled (storage example_orchestrator_config) then ?s3\<lparr>now := 4000016\<rparr> else ?s3) =
      (False, ?s3\<lparr>now := 4000019\<rparr>)"
    by (simp add: example_collaborators_def example_orchestrator_config_def)
  have h4: "google_drive_upload example_collaborators ?p
      (if sftp_enabled (storage example_orchestrator_config) then ?s3\<lparr>now := 4000019\<rparr>
       else if ftp_enabled (storage example_orchestrator_config) then ?s3\<lparr>now := 4000016\<rparr>
       else ?s3) = (None, ?s3\<lparr>now := 4000019\<rparr>)"
    by (simp add: example_collaborators_def example_orchestrator_config_def)
  from upload_failure_is_not_fatal [OF h1 h2 h3 h4] h2 show ?thesis by auto
qed

text \<open>
  Claim C3. A stage raises in four places: the connection test answers \<open>False\<close>, the dump
  answers \<open>False\<close>, the compression answers \<open>None\<close> or an empty path, the verification
  answers \<open>False\<close>. In each case the run returns \<open>False\<close> in the state the failing stage
  left, and the last thing it does is to send the failure notification with the text of the
  error and the time elapsed since the start. Before it come the calls of the stages up to
  the failing one and nothing else: no later stage, no upload, no cleanup.
\<close>

theorem stage_error_fails_and_notifies:
  "(test_connection c s0 = (False, s1) \<longrightarrow>
      backup_single_database cfg c db s0 =
        (False, s1,
         [Test_connection,
          Send_backup_notification
            (Backup_failed db ''Database connection failed'' (now s1 - now s0))])) \<and>
   (test_connection c s0 = (True, s1) \<and>
    create_backup c db (temp_sql_file cfg c db s1) s1 = (False, s2) \<longrightarrow>
      backup_single_database cfg c db s0 =
        (False, s2,
         [Test_connection, Create_backup db (temp_sql_file cfg c db s1),
          Send_backup_notification
            (Backup_failed db ''Failed to create database dump'' (now s2 - now s0))])) \<and>
   (test_connection c s0 = (True, s1) \<and>
    create_backup c db (temp_sql_file cfg c db s1) s1 = (True, s2) \<and>
    compression (backup cfg) \<and>
    compress_file c (temp_sql_file cfg c db s1) s2 = (r, s3) \<and> (r = None \<or> r = Some []) \<longrightarrow>
      backup_single_database cfg c db s0 =
        (False, s3,
         [Test_connection, Create_backup db (temp_sql_file cfg c db s1),
          Compress_file (temp_sql_file cfg c db s1),
          Send_backup_notification
            (Backup_failed db ''Compression failed'' (now s3 - now s0))])) \<and>
   (test_connection c s0 = (True, s1) \<and>
    create_backup c db (temp_sql_file cfg c db s1) s1 = (True, s2) \<and>
    compression (backup cfg) \<and>
    compress_file c (temp_sql_file cfg c db s1) s2 = (Some p, s3) \<and> p \<noteq> [] \<and>
    \<not> verify_backup (files s3) p \<longrightarrow>
      backup_single_database cfg c db s0 =
        (False, s3,
         [Test_connection, Create_backup db (temp_sql_file cfg c db s1),
          Compress_file (temp_sql_file cfg c db s1), Verify_backup p,
          Send_backup_notification
            (Backup_failed db ''Backup verification failed'' (now s3 - now s0))])) \<and>
   (test_connection c s0 = (True, s1) \<and>
    create_backup c db (temp_sql_file cfg c db s1) s1 = (True, s2) \<and>
    \<not> compression (backup cfg) \<and>
    \<not> verify_backup (files s2) (new_backup_path cfg c db s1) \<longrightarrow>
      backup_single_database cfg c db s0 =
        (False, s2,
         [Test_connection, Create_backup db (temp_sql_file cfg c db s1),
          Verify_backup (new_backup_path cfg c db s1),
          Send_backup_notification
            (Backup_failed db ''Backup verification failed'' (now s2 - now s0))]))"
proof (intro conjI impI)
  assume "test_connection c s0 = (False, s1)"
  then show "backup_single_database cfg c db s0 =
        (False, s1,
         [Test_connection,
          Send_backup_notification
            (Backup_failed db ''Database connection failed'' (now s1 - now s0))])"
    by (simp add: backup_single_database_def try_backup_def prepare_backup_def)
next
  assume "test_connection c s0 = (True, s1) \<and>
    create_backup c db (temp_sql_file cfg c db s1) s1 = (False, s2)"
  then show "backup_single_database cfg c db s0 =
        (False, s2,
         [Test_connection, Create_backup db (temp_sql_file cfg c db s1),
          Send_backup_notification
            (Backup_failed db ''Failed to create database dump'' (now s2 - now s0))])"
    by (simp add: backup_single_database_def try_backup_def prepare_backup_paths)
next
  assume "test_connection c s0 = (True, s1) \<and>
    create_backup c db (temp_sql_file cfg c db s1) s1 = (True, s2) \<and>
    compression (backup cfg) \<and>
    compress_file c (temp_sql_file cfg c db s1) s2 = (r, s3) \<and> (r = None \<or> r = Some [])"
  then show "backup_single_database cfg c db s0 =
        (False, s3,
         [Test_connection, Create_backup db (temp_sql_file cfg c db s1),
          Compress_file (temp_sql_file cfg c db s1),
          Send_backup_notification
            (Backup_failed db ''Compression failed'' (now s3 - now s0))])"
    by (auto simp add: backup_single_database_def try_backup_def prepare_backup_paths
          compress_step_def)
next
  assume "test_connection c s0 = (True, s1) \<and>
    create_backup c db (temp_sql_file cfg c db s1) s1 = (True, s2) \<and>
    compression (backup cfg) \<and>
    compress_file c (temp_sql_file cfg c db s1) s2 = (Some p, s3) \<and> p \<noteq> [] \<and>
    \<not> verify_backup (files s3) p"
  then show "backup_single_database cfg c db s0 =
        (False, s3,
         [Test_connection, Create_backup db (temp_sql_file cfg c db s1),
          Compress_file (temp_sql_file cfg c db s1), Verify_backup p,
          Send_backup_notification
            (Backup_failed db ''Backup verification failed'' (now s3 - now s0))])"
    by (simp add: backup_single_database_def try_backup_def prepare_backup_paths
          compress_step_def)
next
  assume "test_connection c s0 = (True, s1) \<and>
    create_backup c db (temp_sql_file cfg c db s1) s1 = (True, s2) \<and>
    \<not> compression (backup cfg) \<and>
    \<not> verify_backup (files s2) (new_backup_path cfg c db s1)"
  then show "backup_single_database cfg c db s0 =
        (False, s2,
         [Test_connection, Create_backup db (temp_sql_file cfg c db s1),
          Verify_backup (new_backup_path cfg c db s1),
          Send_backup_notification
            (Backup_failed db ''Backup verification failed'' (now s2 - now s0))])"
    by (simp add: backup_single_database_def try_backup_def prepare_backup_paths)
qed

text \<open>
  Witness for C3: the example run of \<open>d\<close>, failing at each stage in turn. The connection
  test takes one second, the dump five, the compression two.
\<close>

theorem stage_error_fails_and_notifies_witness:
  "backup_single_database example_orchestrator_config
     (example_collaborators\<lparr>test_connection := (\<lambda>s. (False, s\<lparr>now := now s + 1\<rparr>))\<rparr>)
     ''d'' example_sys =
     (False, example_sys\<lparr>now := 4000006\<rparr>,
      [Test_connection,
       Send_backup_notification (Backup_failed ''d'' ''Database connection failed'' 1)]) \<and>
   backup_single_database example_orchestrator_config
     (example_collaborators\<lparr>create_backup := (\<lambda>db out s. (False, s\<lparr>now := now s + 5\<rparr>))\<rparr>)
     ''d'' example_sys =
     (False, example_sys\<lparr>now := 4000011\<rparr>,
      [Test_connection, Create_backup ''d'' ''b/d_full_5.sql'',
       Send_backup_notification (Backup_failed ''d'' ''Failed to create database dump'' 6)]) \<and>
   backup_single_database example_orchestrator_config
     (example_collaborators\<lparr>compress_file := (\<lambda>inp s. (None, s\<lparr>now := now s + 2\<rparr>))\<rparr>)
     ''d'' example_sys =
     (False,
      \<lparr>files = write_file example_fs ''b/d_full_5.sql'' (new_file 4000006 100), now = 4000013\<rparr>,
      [Test_connection, Create_backup ''d'' ''b/d_full_5.sql'', Compress_file ''b/d_full_5.sql'',
       Send_backup_notification (Backup_failed ''d'' ''Compression failed'' 8)]) \<and>
   backup_single_database example_orchestrator_config
     (example_collaborators\<lparr>compress_file := (\<lambda>inp s. (Some (inp @ ''.gz''),
        s\<lparr>files := write_file (files s) (inp @ ''.gz'') (new_file (now s) 0),
          now := now s + 2\<rparr>))\<rparr>)
     ''d'' example_sys =
     (False,
      \<lparr>files = write_file (write_file example_fs ''b/d_full_5.sql'' (new_file 4000006 100))
                 ''b/d_full_5.sql.gz'' (new_file 4000011 0),
       now = 4000013\<rparr>,
      [Test_connection, Create_backup ''d'' ''b/d_full_5.sql'', Compress_file ''b/d_full_5.sql'',
       Verify_backup ''b/d_full_5.sql.gz'',
       Send_backup_notification (Backup_failed ''d'' ''Backup verification failed'' 8)]) \<and>
   backup_single_database
     (example_orchestrator_config\<lparr>backup := example_config\<lparr>compression := False\<rparr>\<rparr>)
     (example_collaborators\<lparr>create_backup := (\<lambda>db out s.
        (True, s\<lparr>files := write_file (files s) out (new_file (now s) 0), now := now s + 5\<rparr>))\<rparr>)
     ''d'' example_sys =
     (False,
      \<lparr>files = write_file example_fs ''b/d_full_5.sql'' (new_file 4000006 0), now = 4000011\<rparr>,
      [Test_connection, Create_backup ''d'' ''b/d_full_5.sql'', Verify_backup ''b/d_full_5.sql'',
       Send_backup_notification (Backup_failed ''d'' ''Backup verification failed'' 6)])"
proof -
  let ?cfg = example_orchestrator_config
  let ?cfg' = "example_orchestrator_config\<lparr>backup := example_config\<lparr>compression := False\<rparr>\<rparr>"
  let ?s1 = "example_sys\<lparr>now := 4000006\<rparr>"
  let ?s2 = "\<lparr>files = write_file example_fs ''b/d_full_5.sql'' (new_file 4000006 100),
             now = 4000011\<rparr>"
  have tmp: "temp_sql_file ?cfg c ''d'' s = ''b/d_full_5.sql''"
    if "strftime c = (\<lambda>t. ''5'')" for c s
    using that
    by (simp add: temp_sql_file_def new_backup_path_def generate_backup_filename_def
          os_path_join_def endswith_def startswith_def example_orchestrator_config_def example_config_def)
  have tmp': "temp_sql_file ?cfg' c ''d'' s = ''b/d_full_5.sql''"
    and path': "new_backup_path ?cfg' c ''d'' s = ''b/d_full_5.sql''"
    if "strftime c = (\<lambda>t. ''5'')" for c s
    using that
    by (simp_all add: temp_sql_file_def new_backup_path_def generate_backup_filename_def
          os_path_join_def endswith_def startswith_def example_orchestrator_config_def example_config_def)
  let ?cA = "example_collaborators\<lparr>test_connection := (\<lambda>s. (False, s\<lparr>now := now s + 1\<rparr>))\<rparr>"
  have "test_connection ?cA example_sys = (False, ?s1)"
    by (simp add: example_sys_def)
  with stage_error_fails_and_notifies [of ?cA example_sys ?s1 ?cfg "''d''"]
  have A: "backup_single_database ?cfg ?cA ''d'' example_sys =
     (False, ?s1,
      [Test_connection,
       Send_backup_notification (Backup_failed ''d'' ''Database connection failed'' 1)])"
    by (simp add: example_sys_def)
  let ?cB = "example_collaborators\<lparr>create_backup := (\<lambda>db out s. (False, s\<lparr>now := now s + 5\<rparr>))\<rparr>"
  have sB: "strftime ?cB = (\<lambda>t. ''5'')" by (simp add: example_collaborators_def)
  have "test_connection ?cB example_sys = (True, ?s1) \<and>
        create_backup ?cB ''d'' (temp_sql_file ?cfg ?cB ''d'' ?s1) ?s1 =
          (False, example_sys\<lparr>now := 4000011\<rparr>)"
    unfolding tmp [OF sB]
    by (simp add: example_sys_def example_collaborators_def)
  with stage_error_fails_and_notifies
         [of ?cB example_sys ?s1 ?cfg "''d''" "example_sys\<lparr>now := 4000011\<rparr>"]
  have B: "backup_single_database ?cfg ?cB ''d'' example_sys =
     (False, example_sys\<lparr>now := 4000011\<rparr>,
      [Test_connection, Create_backup ''d'' ''b/d_full_5.sql'',
       Send_backup_notification (Backup_failed ''d'' ''Failed to create database dump'' 6)])"
    by (simp add: tmp [OF sB] example_sys_def)
  let ?cC = "example_collaborators\<lparr>compress_file := (\<lambda>inp s. (None, s\<lparr>now := now s + 2\<rparr>))\<rparr>"
  let ?s3 = "\<lparr>files = write_file example_fs ''b/d_full_5.sql'' (new_file 4000006 100),
             now = 4000013\<rparr>"
  have sC: "strftime ?cC = (\<lambda>t. ''5'')" by (simp add: example_collaborators_def)
  have "test_connection ?cC example_sys = (True, ?s1) \<and>
        create_backup ?cC ''d'' (temp_sql_file ?cfg ?cC ''d'' ?s1) ?s1 = (True, ?s2) \<and>
        compression (backup ?cfg) \<and>
        compress_file ?cC (temp_sql_file ?cfg ?cC ''d'' ?s1) ?s2 = (None, ?s3) \<and>
        (None = None \<or> None = Some [])"
    unfolding tmp [OF sC]
    by (simp add: example_sys_def example_collaborators_def
          example_orchestrator_config_def example_config_def)
  with stage_error_fails_and_notifies
         [of ?cC example_sys ?s1 ?cfg "''d''" ?s2 None ?s3]
  have C: "backup_single_database ?cfg ?cC ''d'' example_sys =
     (False, ?s3,
      [Test_connection, Create_backup ''d'' ''b/d_full_5.sql'', Compress_file ''b/d_full_5.sql'',
       Send_backup_notification (Backup_failed ''d'' ''Compression failed'' 8)])"
    by (simp add: tmp [OF sC] example_sys_def)
  let ?cD = "example_collaborators\<lparr>compress_file := (\<lambda>inp s. (Some (inp @ ''.gz''),
        s\<lparr>files := write_file (files s) (inp @ ''.gz'') (new_file (now s) 0),
          now := now s + 2\<rparr>))\<rparr>"
  let ?s3' = "\<lparr>files = write_file (write_file example_fs ''b/d_full_5.sql'' (new_file 4000006 100))
                 ''b/d_full_5.sql.gz'' (new_file 4000011 0),
       now = 4000013\<rparr>"
  have sD: "strftime ?cD = (\<lambda>t. ''5'')" by (simp add: example_collaborators_def)
  have v: "\<not> verify_backup (files ?s3') ''b/d_full_5.sql.gz''"
    by (simp add: verify_backup_def os_path_exists_def write_file_def example_fs_def
          new_file_def)
  have "test_connection ?cD example_sys = (True, ?s1) \<and>
        create_backup ?cD ''d'' (temp_sql_file ?cfg ?cD ''d'' ?s1) ?s1 = (True, ?s2) \<and>
        compression (backup ?cfg) \<and>
        compress_file ?cD (temp_sql_file ?cfg ?cD ''d'' ?s1) ?s2 =
          (Some ''b/d_full_5.sql.gz'', ?s3') \<and> ''b/d_full_5.sql.gz'' \<noteq> [] \<and>
        \<not> verify_backup (files ?s3') ''b/d_full_5.sql.gz''"
    using v
    unfolding tmp [OF sD]
    by (simp add: example_sys_def example_collaborators_def
          example_orchestrator_config_def example_config_def)
  with stage_error_fails_and_notifies
         [of ?cD example_sys ?s1 ?cfg "''d''" ?s2 _ ?s3' "''b/d_full_5.sql.gz''"]
  have D: "backup_single_database ?cfg ?cD ''d'' example_sys =
     (False, ?s3',
      [Test_connection, Create_backup ''d'' ''b/d_full_5.sql'', Compress_file ''b/d_full_5.sql'',
       Verify_backup ''b/d_full_5.sql.gz'',
       Send_backup_notification (Backup_failed ''d'' ''Backup verification failed'' 8)])"
    by (simp add: tmp [OF sD] example_sys_def)
  let ?cE = "example_collaborators\<lparr>create_backup := (\<lambda>db out s.
        (True, s\<lparr>files := write_file (files s) out (new_file (now s) 0), now := now s + 5\<rparr>))\<rparr>"
  let ?s2' = "\<lparr>files = write_file example_fs ''b/d_full_5.sql'' (new_file 4000006 0),
              now = 4000011\<rparr>"
  have sE: "strftime ?cE = (\<lambda>t. ''5'')" by (simp add: example_collaborators_def)
  have v': "\<not> verify_backup (files ?s2') ''b/d_full_5.sql''"
    by (simp add: verify_backup_def os_path_exists_def write_file_def example_fs_def
          new_file_def)
  have "test_connection ?cE example_sys = (True, ?s1) \<and>
        create_backup ?cE ''d'' (temp_sql_file ?cfg' ?cE ''d'' ?s1) ?s1 = (True, ?s2') \<and>
        \<not> compression (backup ?cfg') \<and>
        \<not> verify_backup (files ?s2') (new_backup_path ?cfg' ?cE ''d'' ?s1)"
    using v'
    unfolding tmp' [OF sE] path' [OF sE]
    by (simp add: example_sys_def example_collaborators_def)
  with stage_error_fails_and_notifies
         [of ?cE example_sys ?s1 ?cfg' "''d''" ?s2']
  have E: "backup_single_database ?cfg' ?cE ''d'' example_sys =
     (False, ?s2',
      [Test_connection, Create_backup ''d'' ''b/d_full_5.sql'', Verify_backup ''b/d_full_5.sql'',
       Send_backup_notification (Backup_failed ''d'' ''Backup verification failed'' 6)])"
    by (simp add: tmp' [OF sE] path' [OF sE] example_sys_def)
  from A B C D E show ?thesis by (intro conjI)
qed

section \<open>Claims about the batch\<close>

text \<open>
  Claim C7. \<open>run_backup\<close> runs the requested databases (the configured ones when none are
  given) one after the other, each to its notification, whether the ones before succeeded
  or failed: the notifications sent are those of the requested databases, in their order.
  The mapping returned has one entry for each requested database and no other, and the
  entry of a database records an outcome that a run of that database reported. For the
  empty list the mapping is empty and nothing is done.
\<close>

theorem run_backup_one_result_per_database:
  assumes "run_backup cfg c requested s = (results, s', evs)"
    and "dbs = (case requested of None \<Rightarrow> databases cfg | Some l \<Rightarrow> l)"
  shows "map fst (List.map_filter notified evs) = dbs \<and>
         distinct (map fst results) \<and>
         set (map fst results) = set dbs \<and>
         (\<forall>db\<in>set dbs. \<exists>ok.
            map_of results db =
              Some \<lparr>result_status = (if ok then ''success'' else ''error''),
                    result_success = ok, result_database = db\<rparr> \<and>
            (db, ok) \<in> set (List.map_filter notified evs)) \<and>
         (dbs = [] \<longrightarrow> results = [] \<and> evs = [] \<and> s' = s)"
proof (cases "dbs = []")
  case True
  with assms show ?thesis by (simp add: run_backup_def)
next
  case False
  with assms have "backup_loop cfg c dbs ([], s, []) = (results, s', evs)"
    by (simp add: run_backup_def)
  from backup_loop_outcomes [OF this] obtain new where
    all: "evs = [] @ new \<and>
           map fst (List.map_filter notified new) = dbs \<and>
           fst ` set results = fst ` set ([] :: (string \<times> db_result) list) \<union> set dbs \<and>
           (distinct (map fst ([] :: (string \<times> db_result) list)) \<longrightarrow>
              distinct (map fst results)) \<and>
           (\<forall>db\<in>set dbs. \<exists>ok.
              map_of results db =
                Some \<lparr>result_status = (if ok then ''success'' else ''error''),
                      result_success = ok, result_database = db\<rparr> \<and>
              (db, ok) \<in> set (List.map_filter notified new)) \<and>
           (\<forall>db. db \<notin> set dbs \<longrightarrow> map_of results db = map_of [] db)" ..
  note new = all [THEN conjunct1]
    and order = all [THEN conjunct2, THEN conjunct1]
    and keys = all [THEN conjunct2, THEN conjunct2, THEN conjunct1]
    and dist = all [THEN conjunct2, THEN conjunct2, THEN conjunct2, THEN conjunct1]
    and vals = all [THEN conjunct2, THEN conjunct2, THEN conjunct2, THEN conjunct2,
                    THEN conjunct1]
  from new have evs: "new = evs" by simp
  have c1: "map fst (List.map_filter notified evs) = dbs"
    using order by (simp only: evs)
  have c2: "distinct (map fst results)" using dist by simp
  have c3: "set (map fst results) = set dbs" using keys by simp
  have c4: "\<forall>db\<in>set dbs. \<exists>ok.
            map_of results db =
              Some \<lparr>result_status = (if ok then ''success'' else ''error''),
                    result_success = ok, result_database = db\<rparr> \<and>
            (db, ok) \<in> set (List.map_filter notified evs)"
    using vals by (simp only: evs)
  have c5: "dbs = [] \<longrightarrow> results = [] \<and> evs = [] \<and> s' = s"
    using False by simp
  from c1 c2 c3 c4 c5 show ?thesis by (intro conjI)
qed

text \<open>
  Witness for C7: the databases \<open>d\<close>, \<open>e\<close>, \<open>d\<close> with a database server that refuses the
  first connection only. The failure of the first run does not stop the other two.
\<close>

theorem run_backup_one_result_per_database_witness:
  "map fst (List.map_filter notified
      (snd (snd (run_backup example_orchestrator_config
         (example_collaborators\<lparr>test_connection :=
             (\<lambda>s. (now s > 4000005, s\<lparr>now := now s + 1\<rparr>))\<rparr>)
         (Some [''d'', ''e'', ''d'']) example_sys)))) = [''d'', ''e'', ''d''] \<and>
   List.map_filter notified
      (snd (snd (run_backup example_orchestrator_config
         (example_collaborators\<lparr>test_connection :=
             (\<lambda>s. (now s > 4000005, s\<lparr>now := now s + 1\<rparr>))\<rparr>)
         (Some [''d'', ''e'', ''d'']) example_sys))) =
      [(''d'', False), (''e'', True), (''d'', True)] \<and>
   map fst (fst (run_backup example_orchestrator_config
         (example_collaborators\<lparr>test_connection :=
             (\<lambda>s. (now s > 4000005, s\<lparr>now := now s + 1\<rparr>))\<rparr>)
         (Some [''d'', ''e'', ''d'']) example_sys)) = [''d'', ''e'']"
proof -
  let ?run = "run_backup example_orchestrator_config
         (example_collaborators\<lparr>test_connection :=
             (\<lambda>s. (now s > 4000005, s\<lparr>now := now s + 1\<rparr>))\<rparr>)
         (Some [''d'', ''e'', ''d'']) example_sys"
  have h1: "?run = (fst ?run, fst (snd ?run), snd (snd ?run))" by simp
  have h2: "[''d'', ''e'', ''d''] =
      (case Some [''d'', ''e'', ''d''] of None \<Rightarrow> databases example_orchestrator_config
       | Some l \<Rightarrow> l)" by simp
  have h3: "List.map_filter notified (snd (snd ?run)) =
      [(''d'', False), (''e'', True), (''d'', True)]"
    by code_simp
  have h4: "map fst (fst ?run) = [''d'', ''e'']"
    by code_simp
  from run_backup_one_result_per_database [OF h1 h2]
  have "map fst (List.map_filter notified (snd (snd ?run))) = [''d'', ''e'', ''d'']"
    by (rule conjunct1)
  with h3 h4 show ?thesis by (intro conjI)
qed

section \<open>Claims about the scheduler\<close>







end
